theory Spec2Isabelle
  imports Complex_Main "HOL-Library.Word"
begin

section \<open>Delivery metrics of the pitch evaluator (backend audio analysis)\<close>

text \<open>
  A shallow embedding of the audio analysis module of the backend
  (the functions \<^verbatim>\<open>analyzeAudioProperties\<close> ... \<^verbatim>\<open>estimatePitch\<close>).

  Numbers. JavaScript numbers are IEEE doubles. A double is modelled by the
  real number it stands for. The pace score is computed with the double
  operations: every operation of \<^verbatim>\<open>calculateRealPace\<close> rounds its exact result
  with \<open>binary64\<close>. The other functions compute with exact real numbers, so
  the rounding of their double arithmetic is idealised. A division
  whose divisor can be zero produces \<^verbatim>\<open>NaN\<close> or an infinity in JavaScript and
  no exception; those divisions are modelled with \<open>js_div\<close> on the type
  \<open>jsnum\<close>, and every comparison with \<^verbatim>\<open>NaN\<close> is false, as in the language.

  Exceptions are values of the sum type \<open>error + 'a\<close>. A loop that may run
  forever returns \<open>None\<close>.

  The sample rate is a parameter of the helper functions, as in the source;
  it is a natural number, and the only caller passes 44100. For that value
  the double products \<^verbatim>\<open>sampleRate * 0.02\<close> and \<^verbatim>\<open>sampleRate * 0.01\<close> have the
  floors 882 and 441, as the real products have.
\<close>

subsection \<open>JavaScript numbers where a divisor may be zero\<close>

datatype jsnum = NaN | PInf | NInf | Fin real

definition js_div :: "real \<Rightarrow> real \<Rightarrow> jsnum" where
  "js_div x y =
     (if y \<noteq> 0 then Fin (x / y)
      else if x = 0 then NaN
      else if 0 < x then PInf
      else NInf)"

fun js_lt :: "jsnum \<Rightarrow> real \<Rightarrow> bool" where
  "js_lt NaN b = False"
| "js_lt PInf b = False"
| "js_lt NInf b = True"
| "js_lt (Fin a) b = (a < b)"

fun js_le :: "jsnum \<Rightarrow> real \<Rightarrow> bool" where
  "js_le NaN b = False"
| "js_le PInf b = False"
| "js_le NInf b = True"
| "js_le (Fin a) b = (a \<le> b)"

fun js_gt :: "jsnum \<Rightarrow> real \<Rightarrow> bool" where
  "js_gt NaN b = False"
| "js_gt PInf b = True"
| "js_gt NInf b = False"
| "js_gt (Fin a) b = (a > b)"

fun js_ge :: "jsnum \<Rightarrow> real \<Rightarrow> bool" where
  "js_ge NaN b = False"
| "js_ge PInf b = True"
| "js_ge NInf b = False"
| "js_ge (Fin a) b = (a \<ge> b)"

text \<open>\<^verbatim>\<open>Math.sqrt\<close>, \<^verbatim>\<open>Math.log10\<close>, and \<^verbatim>\<open>+\<close>, \<^verbatim>\<open>*\<close> with a finite operand.\<close>

fun js_sqrt :: "jsnum \<Rightarrow> jsnum" where
  "js_sqrt NaN = NaN"
| "js_sqrt PInf = PInf"
| "js_sqrt NInf = NaN"
| "js_sqrt (Fin a) = (if a < 0 then NaN else Fin (sqrt a))"

fun js_log10 :: "jsnum \<Rightarrow> jsnum" where
  "js_log10 NaN = NaN"
| "js_log10 PInf = PInf"
| "js_log10 NInf = NaN"
| "js_log10 (Fin a) = (if a < 0 then NaN else if a = 0 then NInf else Fin (log 10 a))"

fun js_plus :: "jsnum \<Rightarrow> real \<Rightarrow> jsnum" where
  "js_plus (Fin a) b = Fin (a + b)"
| "js_plus x b = x"

fun js_times :: "real \<Rightarrow> jsnum \<Rightarrow> jsnum" where
  "js_times c (Fin a) = Fin (c * a)"
| "js_times c NaN = NaN"
| "js_times c PInf = (if c = 0 then NaN else if 0 < c then PInf else NInf)"
| "js_times c NInf = (if c = 0 then NaN else if 0 < c then NInf else PInf)"

subsection \<open>Rounding to a double\<close>

text \<open>
  \<open>rne\<close> rounds to the nearest integer, a tie to the even one. \<open>binary64 x\<close> is
  the double nearest to \<open>x\<close>, a tie to the one with an even significand: the
  significand has 53 bits, the exponent of the last bit is at least \<open>-1074\<close>
  (gradual underflow). Overflow to an infinity is not modelled; the numbers
  rounded below are times in seconds and their quotients, far from \<open>2 ^ 1024\<close>.
\<close>

definition rne :: "real \<Rightarrow> int" where
  "rne y =
     (let n = \<lfloor>y\<rfloor>; r = y - of_int n
      in if r < 1 / 2 then n
         else if 1 / 2 < r then n + 1
         else if even n then n else n + 1)"

definition binary64 :: "real \<Rightarrow> real" where
  "binary64 x =
     (if x = 0 then 0
      else let e = max \<lfloor>log 2 \<bar>x\<bar>\<rfloor> (- 1022);
               q = 2 powi (e - 52)
           in q * of_int (rne (x / q)))"

subsection \<open>Data\<close>

datatype error = TypeError | RangeError

text \<open>
  The argument of the exported function is an arbitrary JavaScript value; the
  server passes the \<^verbatim>\<open>Buffer\<close> of the uploaded file.
\<close>

datatype jsval = Undefined | Buffer "8 word list"

record audioData =
  buffer :: "8 word list"
  sampleRate :: nat
  channels :: nat
  duration :: real
  samples :: "real list"

record segment =
  seg_start :: real
  seg_end :: real

record audioMetrics =
  pace :: real
  volume :: real
  clarity :: real
  pauseDuration :: real
  tonalVariation :: real
  confidence :: real
  enthusiasm :: real

subsection \<open>Decoding\<close>

text \<open>
  \<^verbatim>\<open>buf.readInt16LE(offset)\<close> of Node: the two bytes at \<open>offset\<close> and
  \<open>offset + 1\<close>, least significant first, read as two's complement; a
  \<^verbatim>\<open>RangeError\<close> when they are not both inside the buffer.
\<close>

definition readInt16LE :: "8 word list \<Rightarrow> nat \<Rightarrow> error + int" where
  "readInt16LE buf offset =
     (if offset + 2 \<le> length buf
      then Inr (sint (word_cat (buf ! (offset + 1)) (buf ! offset) :: 16 word))
      else Inl RangeError)"

text \<open>
  The loop of \<^verbatim>\<open>extractSamplesFromBuffer\<close>, from index \<open>i\<close> on; \<open>n\<close> is the
  length of the \<^verbatim>\<open>Float32Array\<close>. A sample is an integer of 16 bits divided
  by \<open>2 ^ 15\<close>, which a 32-bit float holds exactly.
\<close>

function extract_loop :: "8 word list \<Rightarrow> nat \<Rightarrow> nat \<Rightarrow> real list \<Rightarrow> error + real list" where
  "extract_loop buf n i acc =
     (if i < n
      then (case readInt16LE buf (i * 2) of
              Inl e \<Rightarrow> Inl e
            | Inr sample \<Rightarrow> extract_loop buf n (Suc i) (acc @ [real_of_int sample / 32768]))
      else Inr acc)"
  by pat_completeness auto
termination
  by (relation "measure (\<lambda>(buf, n, i, acc). n - i)") auto

text \<open>
  \<^verbatim>\<open>new Float32Array(buffer.length / 2)\<close> converts its argument with
  \<^verbatim>\<open>ToIndex\<close>, which truncates: an odd length gives \<open>length div 2\<close> elements.
\<close>

definition extractSamplesFromBuffer :: "8 word list \<Rightarrow> error + real list" where
  "extractSamplesFromBuffer buf = extract_loop buf (length buf div 2) 0 []"

text \<open>
  \<^verbatim>\<open>processAudioBuffer\<close>: reading \<^verbatim>\<open>.length\<close> of \<^verbatim>\<open>undefined\<close> raises a
  \<^verbatim>\<open>TypeError\<close>; the catch block raises the error again.
\<close>

definition processAudioBuffer :: "jsval \<Rightarrow> error + audioData" where
  "processAudioBuffer audioBuffer =
     (case audioBuffer of
        Undefined \<Rightarrow> Inl TypeError
      | Buffer buf \<Rightarrow>
          (case extractSamplesFromBuffer buf of
             Inl e \<Rightarrow> Inl e
           | Inr smp \<Rightarrow>
               Inr \<lparr> buffer = buf, sampleRate = 44100, channels = 1,
                     duration = real (length buf) / (44100 * 2), samples = smp \<rparr>))"

subsection \<open>Window energy and segmentation\<close>

text \<open>\<^verbatim>\<open>xs.slice(a, b)\<close> for indices that are not negative.\<close>

definition slice :: "'a list \<Rightarrow> nat \<Rightarrow> nat \<Rightarrow> 'a list" where
  "slice xs a b = take (b - a) (drop a xs)"

definition calculateWindowEnergy :: "real list \<Rightarrow> jsnum" where
  "calculateWindowEnergy window =
     js_div (foldl (\<lambda>energy x. energy + x * x) 0 window) (real (length window))"

text \<open>
  The state of the loop of \<^verbatim>\<open>detectSpeechSegments\<close> is
  \<open>(inSpeech, segmentStart, segments)\<close>; \<open>speech_step\<close> is the body of the loop
  at window start \<open>i\<close>. The quotient \<^verbatim>\<open>i / sampleRate\<close> is computed only in a
  branch that needs a window energy other than \<^verbatim>\<open>NaN\<close>, hence a window that is
  not empty, a positive window size and a positive sample rate.
\<close>

type_synonym detector = "bool \<times> real \<times> segment list"

definition energyThreshold :: real where
  "energyThreshold = 0.001"

definition speech_step :: "real list \<Rightarrow> nat \<Rightarrow> nat \<Rightarrow> nat \<Rightarrow> detector \<Rightarrow> detector" where
  "speech_step smp sr windowSize i st =
     (case st of (inSpeech, segmentStart, segments) \<Rightarrow>
        let window = slice smp i (min (i + windowSize) (length smp));
            energy = calculateWindowEnergy window
        in if js_gt energy energyThreshold \<and> \<not> inSpeech
           then (True, real i / real sr, segments)
           else if js_le energy energyThreshold \<and> inSpeech
           then (False, segmentStart,
                 segments @ [\<lparr> seg_start = segmentStart, seg_end = real i / real sr \<rparr>])
           else st)"

text \<open>
  \<^verbatim>\<open>for (let i = 0; i < samples.length; i += windowSize)\<close>: with a window
  size of 0 and a buffer that is not empty the loop never ends.
\<close>

partial_function (option) speech_loop ::
  "real list \<Rightarrow> nat \<Rightarrow> nat \<Rightarrow> nat \<Rightarrow> detector \<Rightarrow> detector option" where
  "speech_loop smp sr windowSize i st =
     (if i < length smp
      then speech_loop smp sr windowSize (i + windowSize) (speech_step smp sr windowSize i st)
      else Some st)"

definition detectSpeechSegments :: "real list \<Rightarrow> nat \<Rightarrow> segment list option" where
  "detectSpeechSegments smp sr =
     (let windowSize = nat \<lfloor>real sr * 0.02\<rfloor>
      in map_option (\<lambda>(inSpeech, segmentStart, segments). segments)
           (speech_loop smp sr windowSize 0 (False, 0, [])))"

text \<open>
  The loop of \<^verbatim>\<open>detectSilentSegments\<close>, with state
  \<open>(inSilence, silenceStart, segments)\<close>. The duration of a pause is the exact
  difference here; the double difference of the source can fall on the other
  side of \<open>minDuration\<close> when the two are equal up to rounding, which changes
  whether that pause is kept and nothing else.
\<close>

definition silence_step ::
  "real list \<Rightarrow> nat \<Rightarrow> real \<Rightarrow> real \<Rightarrow> nat \<Rightarrow> nat \<Rightarrow> detector \<Rightarrow> detector" where
  "silence_step smp sr threshold minDuration windowSize i st =
     (case st of (inSilence, silenceStart, segments) \<Rightarrow>
        let window = slice smp i (min (i + windowSize) (length smp));
            energy = calculateWindowEnergy window
        in if js_lt energy threshold \<and> \<not> inSilence
           then (True, real i / real sr, segments)
           else if js_ge energy threshold \<and> inSilence
           then (let d = real i / real sr - silenceStart
                 in (False, silenceStart,
                     if d \<ge> minDuration
                     then segments @ [\<lparr> seg_start = silenceStart, seg_end = real i / real sr \<rparr>]
                     else segments))
           else st)"

partial_function (option) silence_loop ::
  "real list \<Rightarrow> nat \<Rightarrow> real \<Rightarrow> real \<Rightarrow> nat \<Rightarrow> nat \<Rightarrow> detector \<Rightarrow> detector option" where
  "silence_loop smp sr threshold minDuration windowSize i st =
     (if i < length smp
      then silence_loop smp sr threshold minDuration windowSize (i + windowSize)
             (silence_step smp sr threshold minDuration windowSize i st)
      else Some st)"

definition detectSilentSegments ::
  "real list \<Rightarrow> nat \<Rightarrow> real \<Rightarrow> real \<Rightarrow> segment list option" where
  "detectSilentSegments smp sr threshold minDuration =
     (let windowSize = nat \<lfloor>real sr * 0.01\<rfloor>
      in map_option (\<lambda>(inSilence, silenceStart, segments). segments)
           (silence_loop smp sr threshold minDuration windowSize 0 (False, 0, [])))"

subsection \<open>Spectrum\<close>

text \<open>
  \<^verbatim>\<open>performFFT\<close>: \<open>N\<close> samples are copied, the imaginary parts are 0. The
  array of magnitudes is allocated with \<^verbatim>\<open>new Array(N / 2)\<close>, which raises a
  \<^verbatim>\<open>RangeError\<close> when its argument is not an integer, that is when \<open>N\<close> is odd.
\<close>

definition dft_angle :: "nat \<Rightarrow> nat \<Rightarrow> nat \<Rightarrow> real" where
  "dft_angle k n N = - 2 * pi * real k * real n / real N"

definition performFFT :: "real list \<Rightarrow> error + real list" where
  "performFFT smp =
     (let N = min 1024 (length smp);
          re = map (\<lambda>i. if i < length smp then smp ! i else 0) [0..<N];
          im = replicate N (0::real)
      in if odd N then Inl RangeError
         else Inr (map (\<lambda>k.
                let realSum = foldl (\<lambda>s n. s + (re ! n * cos (dft_angle k n N)
                                                  - im ! n * sin (dft_angle k n N))) 0 [0..<N];
                    imagSum = foldl (\<lambda>s n. s + (re ! n * sin (dft_angle k n N)
                                                  + im ! n * cos (dft_angle k n N))) 0 [0..<N]
                in sqrt (realSum * realSum + imagSum * imagSum)) [0..<N div 2]))"

text \<open>
  \<^verbatim>\<open>getFrequencyRange\<close>, for frequencies that are not negative (the callers
  pass 0, 300, 3400 and 8000). The loop runs \<open>i\<close> from \<open>binMin\<close> while
  \<open>i \<le> binMax\<close> and \<open>i < spectrum.length\<close>. With a sample rate of 0 the bin size
  is 0 or \<^verbatim>\<open>NaN\<close>, both bin indices are \<^verbatim>\<open>Infinity\<close> or \<^verbatim>\<open>NaN\<close> and the loop
  condition is false at once; with an empty spectrum it is false as well.
\<close>

definition getFrequencyRange :: "real list \<Rightarrow> nat \<Rightarrow> nat \<Rightarrow> nat \<Rightarrow> real" where
  "getFrequencyRange spectrum freqMin freqMax sr =
     (if sr = 0 \<or> spectrum = [] then 0
      else let binSize = real sr / (2 * real (length spectrum));
               binMin = nat \<lfloor>real freqMin / binSize\<rfloor>;
               binMax = nat \<lfloor>real freqMax / binSize\<rfloor>
           in foldl (\<lambda>energy i. energy + spectrum ! i) 0
                [binMin ..< min (Suc binMax) (length spectrum)])"

subsection \<open>Pitch\<close>

text \<open>
  The body of the loop over the periods in \<^verbatim>\<open>estimatePitch\<close>, on the state
  \<open>(bestPeriod, bestCorrelation)\<close>. The inner loop runs \<open>i\<close> from 0 while
  \<open>i < window.length - period\<close>, so \<open>count\<close> is that difference, or 0 when
  the period is longer than the window.
\<close>

definition pitch_step :: "real list \<Rightarrow> nat \<Rightarrow> nat \<times> real \<Rightarrow> nat \<times> real" where
  "pitch_step window period best =
     (case best of (bestPeriod, bestCorrelation) \<Rightarrow>
        let count = length window - period;
            correlation = foldl (\<lambda>c i. c + window ! i * window ! (i + period)) 0 [0..<count]
        in if count > 0
           then (if correlation / real count > bestCorrelation
                 then (period, correlation / real count)
                 else best)
           else best)"

definition estimatePitch :: "real list \<Rightarrow> nat \<Rightarrow> real" where
  "estimatePitch window sr =
     (let minPeriod = nat \<lfloor>real sr / 800\<rfloor>;
          maxPeriod = nat \<lfloor>real sr / 80\<rfloor>;
          bestPeriod = fst (foldl (\<lambda>best period. pitch_step window period best) (0, 0)
                              [minPeriod ..< Suc maxPeriod])
      in if bestPeriod > 0 then real sr / real bestPeriod else 0)"

text \<open>
  The loop of \<^verbatim>\<open>calculateRealTonalVariation\<close> that collects the pitch values:
  \<^verbatim>\<open>for (let i = 0; i < samples.length - windowSize; i += windowSize)\<close>.
\<close>

partial_function (option) pitch_loop ::
  "real list \<Rightarrow> nat \<Rightarrow> nat \<Rightarrow> nat \<Rightarrow> real list \<Rightarrow> real list option" where
  "pitch_loop smp sr windowSize i pitchValues =
     (if int i < int (length smp) - int windowSize
      then pitch_loop smp sr windowSize (i + windowSize)
             (let pitch = estimatePitch (slice smp i (i + windowSize)) sr
              in if pitch > 0 then pitchValues @ [pitch] else pitchValues)
      else Some pitchValues)"

definition pitchTrack :: "real list \<Rightarrow> nat \<Rightarrow> real list option" where
  "pitchTrack smp sr = pitch_loop smp sr (nat \<lfloor>real sr * 0.02\<rfloor>) 0 []"

subsection \<open>The five primary scores\<close>

text \<open>
  Each of the five functions wraps its body in \<^verbatim>\<open>try\<close>/\<^verbatim>\<open>catch\<close> and returns
  a default of its own from the catch block (3.5, 4.0, 3.8, 3.5 and 3.2). Only
  \<^verbatim>\<open>performFFT\<close> can raise, so only the catch block of
  \<^verbatim>\<open>calculateRealClarity\<close> is reachable. The result is \<open>None\<close> when a loop of
  the body does not end.
\<close>

text \<open>
  \<^verbatim>\<open>calculateRealPace\<close>, in double arithmetic. The segmentation keeps the bounds
  of a segment as the exact quotients \<open>i / sampleRate\<close>; the source holds the
  doubles nearest to them, \<open>binary64 (seg_start seg)\<close> and
  \<open>binary64 (seg_end seg)\<close>. The subtraction, the addition of \<^verbatim>\<open>reduce\<close> and the
  division each round their exact result; the number of segments is an
  integer and the bucket borders 1.5, 2.5, 4.0 and 5.0 are doubles.
\<close>

definition calculateRealPace :: "audioData \<Rightarrow> real option" where
  "calculateRealPace audioData =
     (case detectSpeechSegments (samples audioData) (sampleRate audioData) of
        None \<Rightarrow> None
      | Some speechSegments \<Rightarrow>
          let totalSpeechTime =
                foldl (\<lambda>total seg.
                         binary64 (total + binary64 (binary64 (seg_end seg)
                                                      - binary64 (seg_start seg))))
                  0 speechSegments;
              speechRate = (if totalSpeechTime > 0
                            then binary64 (real (length speechSegments) / totalSpeechTime)
                            else 0)
          in Some (if speechRate < 1.5 then 2
                   else if speechRate < 2.5 then 3
                   else if speechRate < 4.0 then 5
                   else if speechRate < 5.0 then 4
                   else 3))"

definition calculateRealVolume :: "audioData \<Rightarrow> real" where
  "calculateRealVolume audioData =
     (let smp = samples audioData;
          sumSquares = foldl (\<lambda>s x. s + x * x) 0 smp;
          rms = js_sqrt (js_div sumSquares (real (length smp)));
          dbLevel = js_times 20 (js_log10 (js_plus rms (1 / 10 ^ 10)))
      in if js_lt dbLevel (- 40) then 2
         else if js_lt dbLevel (- 25) then 3
         else if js_lt dbLevel (- 10) then 5
         else if js_lt dbLevel (- 5) then 4
         else 3)"

text \<open>
  The magnitudes are square roots, so the divisor of \<open>clarityRatio\<close> is at
  least \<open>1 / 10 ^ 10\<close>.
\<close>

definition calculateRealClarity :: "audioData \<Rightarrow> real" where
  "calculateRealClarity audioData =
     (case performFFT (samples audioData) of
        Inl e \<Rightarrow> 3.8
      | Inr frequencySpectrum \<Rightarrow>
          let sr = sampleRate audioData;
              speechFreqRange = getFrequencyRange frequencySpectrum 300 3400 sr;
              noiseFreqRange = getFrequencyRange frequencySpectrum 0 300 sr
                             + getFrequencyRange frequencySpectrum 3400 8000 sr;
              clarityRatio = speechFreqRange / (noiseFreqRange + speechFreqRange + 1 / 10 ^ 10)
          in if clarityRatio > 0.8 then 5
             else if clarityRatio > 0.6 then 4
             else if clarityRatio > 0.4 then 3
             else if clarityRatio > 0.2 then 2
             else 1)"

definition calculateRealPauses :: "audioData \<Rightarrow> real option" where
  "calculateRealPauses audioData =
     (let silenceThreshold = 0.01;
          minPauseDuration = 0.2
      in case detectSilentSegments (samples audioData) (sampleRate audioData)
                silenceThreshold minPauseDuration of
           None \<Rightarrow> None
         | Some silentSegments \<Rightarrow>
             let totalSilenceTime =
                   foldl (\<lambda>total seg. total + (seg_end seg - seg_start seg)) 0 silentSegments;
                 silenceRatio = js_div totalSilenceTime (duration audioData)
             in Some (if js_lt silenceRatio 0.05 then 2
                      else if js_lt silenceRatio 0.15 then 5
                      else if js_lt silenceRatio 0.25 then 4
                      else if js_lt silenceRatio 0.35 then 3
                      else 2))"

text \<open>
  Every collected pitch value is positive, so \<open>meanPitch\<close> is positive when
  the list is not empty.
\<close>

definition calculateRealTonalVariation :: "audioData \<Rightarrow> real option" where
  "calculateRealTonalVariation audioData =
     (case pitchTrack (samples audioData) (sampleRate audioData) of
        None \<Rightarrow> None
      | Some pitchValues \<Rightarrow>
          Some (if length pitchValues = 0 then 2
                else let meanPitch = foldl (\<lambda>sum p. sum + p) 0 pitchValues
                                       / real (length pitchValues);
                         variance = foldl (\<lambda>sum p. sum + (p - meanPitch) ^ 2) 0 pitchValues
                                       / real (length pitchValues);
                         pitchVariation = sqrt variance;
                         variationRatio = pitchVariation / meanPitch
                     in if variationRatio < 0.05 then 2
                        else if variationRatio < 0.15 then 3
                        else if variationRatio < 0.25 then 5
                        else if variationRatio < 0.35 then 4
                        else 3))"

subsection \<open>The derived scores and the exported function\<close>

text \<open>\<^verbatim>\<open>Math.round(x)\<close> is \<open>\<lfloor>x + 1/2\<rfloor>\<close>, which is \<open>round x\<close>.\<close>

definition calculateConfidenceFromMetrics :: "audioMetrics \<Rightarrow> real" where
  "calculateConfidenceFromMetrics m =
     (let confidenceScore = 0;
          confidenceScore = confidenceScore + volume m * 0.3;
          confidenceScore = confidenceScore + clarity m * 0.3;
          confidenceScore = confidenceScore + pace m * 0.2;
          confidenceScore = (if tonalVariation m \<ge> 3 \<and> tonalVariation m \<le> 4
                             then confidenceScore + 1.0
                             else confidenceScore + tonalVariation m * 0.2)
      in real_of_int (round (min 5 (max 1 confidenceScore) * 10)) / 10)"

definition calculateEnthusiasmFromMetrics :: "audioMetrics \<Rightarrow> real" where
  "calculateEnthusiasmFromMetrics m =
     (let enthusiasmScore = 0;
          enthusiasmScore = enthusiasmScore + volume m * 0.4;
          enthusiasmScore = enthusiasmScore + tonalVariation m * 0.4;
          enthusiasmScore = (if pace m \<ge> 4
                             then enthusiasmScore + 1.0
                             else enthusiasmScore + pace m * 0.2)
      in real_of_int (round (min 5 (max 1 enthusiasmScore) * 10)) / 10)"

text \<open>The record returned by the catch block of \<^verbatim>\<open>analyzeAudioProperties\<close>.\<close>

definition fallbackMetrics :: audioMetrics where
  "fallbackMetrics =
     \<lparr> pace = 3.5, volume = 4.0, clarity = 3.8, pauseDuration = 2.1,
       tonalVariation = 3.2, confidence = 3.7, enthusiasm = 3.4 \<rparr>"

text \<open>
  The body of the \<^verbatim>\<open>try\<close> block after decoding: the five scores in the order
  of the source, then the two derived ones, each stored into the record before
  the next is computed.
\<close>

definition computeMetrics :: "audioData \<Rightarrow> audioMetrics option" where
  "computeMetrics audioData =
     (case calculateRealPace audioData of
        None \<Rightarrow> None
      | Some p \<Rightarrow>
     (case calculateRealPauses audioData of
        None \<Rightarrow> None
      | Some pd \<Rightarrow>
     (case calculateRealTonalVariation audioData of
        None \<Rightarrow> None
      | Some tv \<Rightarrow>
          let m = \<lparr> pace = p, volume = calculateRealVolume audioData,
                    clarity = calculateRealClarity audioData, pauseDuration = pd,
                    tonalVariation = tv, confidence = 0, enthusiasm = 0 \<rparr>;
              m = m\<lparr> confidence := calculateConfidenceFromMetrics m \<rparr>;
              m = m\<lparr> enthusiasm := calculateEnthusiasmFromMetrics m \<rparr>
          in Some m)))"

definition analyzeAudioProperties :: "jsval \<Rightarrow> audioMetrics option" where
  "analyzeAudioProperties audioBuffer =
     (case processAudioBuffer audioBuffer of
        Inl e \<Rightarrow> Some fallbackMetrics
      | Inr audioData \<Rightarrow> computeMetrics audioData)"

subsection \<open>The formulas of the specification\<close>

text \<open>
  The signed 16-bit little-endian integer formed by a low and a high byte,
  written with arithmetic only.
\<close>

definition s16le :: "8 word \<Rightarrow> 8 word \<Rightarrow> int" where
  "s16le lo hi =
     (let u = uint lo + 256 * uint hi in if u < 32768 then u else u - 65536)"

text \<open>The interval \<open>(-1, 1]\<close> that the specification gives for a decoded sample.\<close>

definition spec_sample_range :: "real \<Rightarrow> bool" where
  "spec_sample_range x = (- 1 < x \<and> x \<le> 1)"

text \<open>Clamping to \<open>[1, 5]\<close> and rounding to one decimal place (halves go up).\<close>

definition spec_clamp :: "real \<Rightarrow> real" where
  "spec_clamp x = (if x < 1 then 1 else if 5 < x then 5 else x)"

definition spec_round1 :: "real \<Rightarrow> real" where
  "spec_round1 x = real_of_int \<lfloor>x * 10 + 1 / 2\<rfloor> / 10"

definition spec_confidence :: "real \<Rightarrow> real \<Rightarrow> real \<Rightarrow> real \<Rightarrow> real" where
  "spec_confidence pc vol clr tv =
     spec_round1 (spec_clamp (0.3 * vol + 0.3 * clr + 0.2 * pc
                              + (if 3 \<le> tv \<and> tv \<le> 4 then 1.0 else 0.2 * tv)))"

definition spec_enthusiasm :: "real \<Rightarrow> real \<Rightarrow> real \<Rightarrow> real" where
  "spec_enthusiasm pc vol tv =
     spec_round1 (spec_clamp (0.4 * vol + 0.4 * tv
                              + (if 4 \<le> pc then 1.0 else 0.2 * pc)))"

text \<open>
  The speech rate and the bucket table of the pace score. The quotient is the
  double quotient: the exact quotient, rounded.
\<close>

definition spec_speechRate :: "nat \<Rightarrow> real \<Rightarrow> real" where
  "spec_speechRate segmentCount totalSpeechSeconds =
     (if totalSpeechSeconds = 0 then 0
      else binary64 (real segmentCount / totalSpeechSeconds))"

definition spec_paceScore :: "real \<Rightarrow> real" where
  "spec_paceScore speechRate =
     (if speechRate < 1.5 then 2
      else if speechRate < 2.5 then 3
      else if speechRate < 4.0 then 5
      else if speechRate < 5.0 then 4
      else 3)"

text \<open>
  The total speech time: the durations \<open>end - start\<close> of the segments, each a
  double difference of the two double bounds, added in doubles from the first
  segment to the last.
\<close>

definition total_seconds :: "segment list \<Rightarrow> real" where
  "total_seconds segs =
     foldl (\<lambda>total d. binary64 (total + d)) 0
       (map (\<lambda>seg. binary64 (binary64 (seg_end seg) - binary64 (seg_start seg))) segs)"

subsection \<open>Invariant of the two segmentation loops\<close>

text \<open>
  At the head of the loop with window start \<open>i\<close>: every closed segment has
  its end after its start and before the end of the buffer, the closed
  segments follow one another in time, and they end before the open run
  starts (or before the current window when no run is open).
\<close>

definition detector_inv :: "real list \<Rightarrow> nat \<Rightarrow> nat \<Rightarrow> detector \<Rightarrow> bool" where
  "detector_inv smp sr i st =
     (case st of (active, opened, segments) \<Rightarrow>
        (\<forall>seg \<in> set segments.
            seg_start seg < seg_end seg
          \<and> seg_end seg < real (length smp) / real sr
          \<and> seg_end seg < (if active then opened else real i / real sr))
      \<and> sorted_wrt (\<lambda>a b. seg_end a < seg_start b) segments
      \<and> (active \<longrightarrow> opened < real i / real sr \<and> opened < real (length smp) / real sr))"

section \<open>Properties\<close>

subsection \<open>Window sizes\<close>

lemma window_size_20ms: "nat \<lfloor>real sr * 0.02\<rfloor> = sr div 50"
proof -
  have "real sr * 0.02 = real sr / real 50" by simp
  then have "\<lfloor>real sr * 0.02\<rfloor> = int (sr div 50)"
    by (simp only: floor_divide_of_nat_eq)
  then show ?thesis by simp
qed

lemma window_size_10ms: "nat \<lfloor>real sr * 0.01\<rfloor> = sr div 100"
proof -
  have "real sr * 0.01 = real sr / real 100" by simp
  then have "\<lfloor>real sr * 0.01\<rfloor> = int (sr div 100)"
    by (simp only: floor_divide_of_nat_eq)
  then show ?thesis by simp
qed

subsection \<open>Rules for the three window loops\<close>

text \<open>
  With a positive window size each loop ends, and a property that every
  iteration keeps holds of the final state.
\<close>

lemma speech_loop_rule:
  assumes w: "0 < w"
    and step: "\<And>i st. i < length smp \<Longrightarrow> P i st \<Longrightarrow> P (i + w) (speech_step smp sr w i st)"
  shows "P i st \<Longrightarrow> \<exists>st' i'. speech_loop smp sr w i st = Some st' \<and> P i' st' \<and> length smp \<le> i'"
proof (induction "length smp - i" arbitrary: i st rule: less_induct)
  case less
  show ?case
  proof (cases "i < length smp")
    case True
    have "length smp - (i + w) < length smp - i" using True w by arith
    from less.hyps[OF this step[OF True less.prems]]
    show ?thesis using True by (subst speech_loop.simps) simp
  next
    case False
    then show ?thesis using less.prems by (subst speech_loop.simps) auto
  qed
qed

lemma silence_loop_rule:
  assumes w: "0 < w"
    and step: "\<And>i st. i < length smp \<Longrightarrow> P i st \<Longrightarrow> P (i + w) (silence_step smp sr th md w i st)"
  shows "P i st \<Longrightarrow> \<exists>st' i'. silence_loop smp sr th md w i st = Some st' \<and> P i' st' \<and> length smp \<le> i'"
proof (induction "length smp - i" arbitrary: i st rule: less_induct)
  case less
  show ?case
  proof (cases "i < length smp")
    case True
    have "length smp - (i + w) < length smp - i" using True w by arith
    from less.hyps[OF this step[OF True less.prems]]
    show ?thesis using True by (subst silence_loop.simps) simp
  next
    case False
    then show ?thesis using less.prems by (subst silence_loop.simps) auto
  qed
qed

lemma pitch_loop_rule:
  assumes w: "0 < w"
    and step: "\<And>i pv. int i < int (length smp) - int w \<Longrightarrow> P pv \<Longrightarrow>
       P (let pitch = estimatePitch (slice smp i (i + w)) sr
          in if pitch > 0 then pv @ [pitch] else pv)"
  shows "P pv \<Longrightarrow> \<exists>pv'. pitch_loop smp sr w i pv = Some pv' \<and> P pv'"
proof (induction "length smp - i" arbitrary: i pv rule: less_induct)
  case less
  show ?case
  proof (cases "int i < int (length smp) - int w")
    case True
    have "length smp - (i + w) < length smp - i" using True w by arith
    from less.hyps[OF this step[OF True less.prems]]
    show ?thesis using True by (subst pitch_loop.simps) simp
  next
    case False
    then show ?thesis using less.prems by (subst pitch_loop.simps) auto
  qed
qed


subsection \<open>The segmentation invariant\<close>

lemma frac_less: "0 < sr \<Longrightarrow> i < j \<Longrightarrow> real i / real sr < real j / real sr"
  by (simp add: divide_strict_right_mono)

lemma speech_step_inv:
  assumes "0 < sr" "0 < w" "i < length smp" "detector_inv smp sr i st"
  shows "detector_inv smp sr (i + w) (speech_step smp sr w i st)"
proof -
  obtain a s segs where st: "st = (a, s, segs)" by (cases st) auto
  have lt: "real i / real sr < real (i + w) / real sr"
    using assms(1,2) by (intro frac_less) auto
  have lt2: "real i / real sr < real (length smp) / real sr"
    using assms(1,3) by (intro frac_less) auto
  show ?thesis
    using assms(4) lt lt2 unfolding st detector_inv_def speech_step_def
    by (auto simp: Let_def sorted_wrt_append split: if_splits)
qed

lemma silence_step_inv:
  assumes "0 < sr" "0 < w" "i < length smp" "detector_inv smp sr i st"
  shows "detector_inv smp sr (i + w) (silence_step smp sr th md w i st)"
proof -
  obtain a s segs where st: "st = (a, s, segs)" by (cases st) auto
  have lt: "real i / real sr < real (i + w) / real sr"
    using assms(1,2) by (intro frac_less) auto
  have lt2: "real i / real sr < real (length smp) / real sr"
    using assms(1,3) by (intro frac_less) auto
  show ?thesis
    using assms(4) lt lt2 unfolding st detector_inv_def silence_step_def
    by (auto simp: Let_def sorted_wrt_append split: if_splits)
qed


subsection \<open>Decoding\<close>

lemma uint_byte_bounds: "0 \<le> uint (b :: 8 word) \<and> uint b < 256"
  using uint_lt2p[of b] by simp

lemma uint_word_cat_bytes:
  "uint (word_cat hi lo :: 16 word) = uint (lo :: 8 word) + 256 * uint (hi :: 8 word)"
proof -
  define u where "u = uint lo + 256 * uint hi"
  have lo: "0 \<le> uint lo" "uint lo < 256" and hi: "0 \<le> uint hi" "uint hi < 256"
    using uint_byte_bounds[of lo] uint_byte_bounds[of hi] by simp_all
  have u: "0 \<le> u" "u < 65536" unfolding u_def using lo hi by arith+
  have "concat_bit 8 (uint lo) (uint hi) = u"
    unfolding u_def using lo by (simp add: concat_bit_eq take_bit_eq_mod push_bit_eq_mult)
  then have "word_cat hi lo = (word_of_int u :: 16 word)"
    by (simp only: word_cat_eq') simp
  then have "uint (word_cat hi lo :: 16 word) = u mod 65536"
    by (simp only: uint_word_of_int) simp
  also have "\<dots> = u" using u by simp
  finally show ?thesis unfolding u_def .
qed

lemma sint_word_cat_bytes:
  "sint (word_cat hi lo :: 16 word) = s16le (lo :: 8 word) (hi :: 8 word)"
proof -
  define u where "u = uint lo + 256 * uint hi"
  have lo: "0 \<le> uint lo" "uint lo < 256" and hi: "0 \<le> uint hi" "uint hi < 256"
    using uint_byte_bounds[of lo] uint_byte_bounds[of hi] by simp_all
  have u: "0 \<le> u" "u < 65536" unfolding u_def using lo hi by arith+
  have "sint (word_cat hi lo :: 16 word) = (u + 32768) mod 65536 - 32768"
    unfolding u_def
    by (simp add: sint_uint uint_word_cat_bytes signed_take_bit_eq_take_bit_shift take_bit_eq_mod)
  also have "\<dots> = (if u < 32768 then u else u - 65536)"
  proof (cases "u < 32768")
    case True
    then have "(u + 32768) mod 65536 = u + 32768" using u by simp
    then show ?thesis using True by simp
  next
    case False
    have "u + 32768 = u - 32768 + 65536" by arith
    then have "(u + 32768) mod 65536 = (u - 32768 + 65536) mod 65536" by (rule arg_cong)
    also have "\<dots> = (u - 32768) mod 65536" by (rule mod_add_self2)
    also have "\<dots> = u - 32768" using False u by simp
    finally show ?thesis using False by simp
  qed
  finally show ?thesis by (simp add: s16le_def Let_def u_def)
qed

lemma s16le_range: "- 32768 \<le> s16le lo hi \<and> s16le lo hi < 32768"
proof -
  define u where "u = uint lo + 256 * uint hi"
  have lo: "0 \<le> uint lo" "uint lo < 256" and hi: "0 \<le> uint hi" "uint hi < 256"
    using uint_byte_bounds[of lo] uint_byte_bounds[of hi] by simp_all
  have u: "0 \<le> u" "u < 65536" unfolding u_def using lo hi by arith+
  have "s16le lo hi = (if u < 32768 then u else u - 65536)"
    by (simp add: s16le_def Let_def u_def)
  then show ?thesis using u by auto
qed

lemma extract_loop_eq:
  "n * 2 \<le> length buf \<Longrightarrow>
   extract_loop buf n i acc =
     Inr (acc @ map (\<lambda>k. real_of_int (s16le (buf ! (2 * k)) (buf ! (2 * k + 1))) / 32768) [i..<n])"
proof (induction buf n i acc rule: extract_loop.induct)
  case (1 buf n i acc)
  show ?case
  proof (cases "i < n")
    case True
    then have rd: "readInt16LE buf (i * 2) = Inr (s16le (buf ! (2 * i)) (buf ! (2 * i + 1)))"
      using "1.prems" by (simp add: readInt16LE_def sint_word_cat_bytes mult.commute)
    have "extract_loop buf n i acc =
            extract_loop buf n (Suc i) (acc @ [real_of_int (s16le (buf ! (2 * i)) (buf ! (2 * i + 1))) / 32768])"
      using True rd by (subst extract_loop.simps) simp
    also have "\<dots> = Inr ((acc @ [real_of_int (s16le (buf ! (2 * i)) (buf ! (2 * i + 1))) / 32768])
                    @ map (\<lambda>k. real_of_int (s16le (buf ! (2 * k)) (buf ! (2 * k + 1))) / 32768) [Suc i..<n])"
      using "1.IH"[OF True rd "1.prems"] .
    finally show ?thesis using True by (simp add: upt_conv_Cons)
  next
    case False
    then show ?thesis by (subst extract_loop.simps) simp
  qed
qed

lemma extractSamples_eq:
  "extractSamplesFromBuffer buf =
     Inr (map (\<lambda>k. real_of_int (s16le (buf ! (2 * k)) (buf ! (2 * k + 1))) / 32768)
            [0..<length buf div 2])"
  unfolding extractSamplesFromBuffer_def by (subst extract_loop_eq) auto


text \<open>
  C6, as amended. For every byte buffer of even positive length, decoding
  does not raise and gives exactly \<open>length div 2\<close> samples; sample \<open>k\<close> is
  the signed 16-bit little-endian integer formed by the bytes \<open>2k\<close> and
  \<open>2k + 1\<close>, divided by 32768, and lies in the half-open interval \<open>[-1, 1)\<close>.
\<close>

theorem decode_even_buffer:
  assumes "0 < length buf" and "even (length buf)"
  shows "\<exists>smp. extractSamplesFromBuffer buf = Inr smp
           \<and> length smp = length buf div 2
           \<and> (\<forall>k < length smp.
                  smp ! k = real_of_int (s16le (buf ! (2 * k)) (buf ! (2 * k + 1))) / 32768
                \<and> - 1 \<le> smp ! k \<and> smp ! k < 1)"
proof -
  let ?smp = "map (\<lambda>k. real_of_int (s16le (buf ! (2 * k)) (buf ! (2 * k + 1))) / 32768)
                [0..<length buf div 2]"
  have rng: "- 1 \<le> real_of_int (s16le lo hi) / 32768 \<and> real_of_int (s16le lo hi) / 32768 < 1"
    for lo hi
  proof -
    have "- 32768 \<le> real_of_int (s16le lo hi)" "real_of_int (s16le lo hi) < 32768"
      using s16le_range[of lo hi] by linarith+
    then show ?thesis by simp
  qed
  have "extractSamplesFromBuffer buf = Inr ?smp" by (rule extractSamples_eq)
  moreover have "length ?smp = length buf div 2" by simp
  moreover have "\<forall>k < length ?smp.
        ?smp ! k = real_of_int (s16le (buf ! (2 * k)) (buf ! (2 * k + 1))) / 32768
      \<and> - 1 \<le> ?smp ! k \<and> ?smp ! k < 1"
    using rng by simp
  ultimately show ?thesis by blast
qed

theorem decode_even_buffer_witness:
  "0 < length [0, 128, 255, 127 :: 8 word] \<and> even (length [0, 128, 255, 127 :: 8 word])
   \<and> (\<exists>smp. extractSamplesFromBuffer [0, 128, 255, 127] = Inr smp \<and> length smp = 2
          \<and> - 1 \<le> smp ! 0 \<and> smp ! 1 < 1)"
proof -
  have h: "0 < length [0, 128, 255, 127 :: 8 word]" "even (length [0, 128, 255, 127 :: 8 word])"
    by simp_all
  from decode_even_buffer[OF h] obtain smp where
    s: "extractSamplesFromBuffer [0, 128, 255, 127] = Inr smp" "length smp = 2"
       "\<forall>k < length smp. - 1 \<le> smp ! k \<and> smp ! k < 1"
    by auto
  from s(2,3) have "- 1 \<le> smp ! 0" "smp ! 1 < 1" by auto
  with s(1,2) h show ?thesis by blast
qed

text \<open>
  The interval \<open>(-1, 1]\<close> of the specification excludes a value that decoding
  produces: the bytes \<open>00 80\<close> are the integer \<open>-32768\<close> and the sample \<open>-1\<close>.
\<close>

theorem decode_interval_counterexample:
  "extractSamplesFromBuffer [0, 128] = Inr [- 1] \<and> \<not> spec_sample_range (- 1)"
  by (simp add: extractSamplesFromBuffer_def readInt16LE_def word_cat_eq spec_sample_range_def)

subsection \<open>Segmentation\<close>

lemma detector_inv_init: "detector_inv smp sr 0 (False, 0, [])"
  by (simp add: detector_inv_def)

lemma speech_loop_final:
  assumes "50 \<le> sr"
  shows "\<exists>a s segs. speech_loop smp sr (nat \<lfloor>real sr * 0.02\<rfloor>) 0 (False, 0, []) = Some (a, s, segs)
           \<and> (\<forall>seg \<in> set segs. seg_start seg < seg_end seg
                  \<and> seg_end seg < real (length smp) / real sr)
           \<and> sorted_wrt (\<lambda>a b. seg_end a < seg_start b) segs
           \<and> (a \<longrightarrow> (\<forall>seg \<in> set segs. seg_end seg < s) \<and> s < real (length smp) / real sr)"
proof -
  have w: "0 < nat \<lfloor>real sr * 0.02\<rfloor>" and sr: "0 < sr"
    using assms by (simp_all add: window_size_20ms del: of_nat_mult)
  from speech_loop_rule[where P = "detector_inv smp sr", OF w speech_step_inv[OF sr w] detector_inv_init]
  obtain st' i' where
    "speech_loop smp sr (nat \<lfloor>real sr * 0.02\<rfloor>) 0 (False, 0, []) = Some st'"
    "detector_inv smp sr i' st'"
    by blast
  then show ?thesis
    by (cases st') (auto simp: detector_inv_def)
qed

lemma silence_loop_final:
  assumes "100 \<le> sr"
  shows "\<exists>a s segs. silence_loop smp sr th md (nat \<lfloor>real sr * 0.01\<rfloor>) 0 (False, 0, []) = Some (a, s, segs)
           \<and> (\<forall>seg \<in> set segs. seg_start seg < seg_end seg
                  \<and> seg_end seg < real (length smp) / real sr)
           \<and> sorted_wrt (\<lambda>a b. seg_end a < seg_start b) segs"
proof -
  have w: "0 < nat \<lfloor>real sr * 0.01\<rfloor>" and sr: "0 < sr"
    using assms by (simp_all add: window_size_10ms del: of_nat_mult)
  from silence_loop_rule[where P = "detector_inv smp sr", OF w silence_step_inv[OF sr w] detector_inv_init]
  obtain st' i' where
    "silence_loop smp sr th md (nat \<lfloor>real sr * 0.01\<rfloor>) 0 (False, 0, []) = Some st'"
    "detector_inv smp sr i' st'"
    by blast
  then show ?thesis
    by (cases st') (auto simp: detector_inv_def)
qed

lemma ordered_segments:
  assumes "\<forall>seg \<in> set segs. seg_start seg < seg_end seg"
    and "sorted_wrt (\<lambda>a b. seg_end a < seg_start b) segs"
  shows "sorted_wrt (\<lambda>a b. seg_start a < seg_start b) segs"
    and "sorted_wrt (\<lambda>a b. seg_end a \<le> seg_start b) segs"
proof -
  show "sorted_wrt (\<lambda>a b. seg_start a < seg_start b) segs"
    using assms(2)
  proof (rule sorted_wrt_mono_rel[rotated])
    fix x y assume "x \<in> set segs" "y \<in> set segs" "seg_end x < seg_start y"
    with assms(1) show "seg_start x < seg_start y" by force
  qed
  show "sorted_wrt (\<lambda>a b. seg_end a \<le> seg_start b) segs"
    using assms(2) by (rule sorted_wrt_mono_rel[rotated]) simp
qed

text \<open>
  C8. When the buffer is exhausted the function returns the segments closed so
  far. None of them ends at \<open>length / sampleRate\<close> (the duration) or later,
  and when the loop ends inside a speech run (\<open>inSpeech\<close>), every returned
  segment ends before that run started: the run that is still open is dropped.
\<close>

theorem trailing_speech_dropped:
  assumes "50 \<le> sr"
  shows "\<exists>inSpeech segmentStart segments.
           speech_loop smp sr (nat \<lfloor>real sr * 0.02\<rfloor>) 0 (False, 0, [])
             = Some (inSpeech, segmentStart, segments)
         \<and> detectSpeechSegments smp sr = Some segments
         \<and> (\<forall>seg \<in> set segments. seg_end seg < real (length smp) / real sr)
         \<and> (inSpeech \<longrightarrow> (\<forall>seg \<in> set segments. seg_end seg < segmentStart))"
proof -
  from speech_loop_final[OF assms, of smp] obtain a s segs where
    l: "speech_loop smp sr (nat \<lfloor>real sr * 0.02\<rfloor>) 0 (False, 0, []) = Some (a, s, segs)"
    and p: "\<forall>seg \<in> set segs. seg_start seg < seg_end seg \<and> seg_end seg < real (length smp) / real sr"
       "a \<longrightarrow> (\<forall>seg \<in> set segs. seg_end seg < s) \<and> s < real (length smp) / real sr"
    by blast
  have "detectSpeechSegments smp sr = Some segs"
    using l by (simp add: detectSpeechSegments_def)
  with l p show ?thesis by blast
qed

theorem trailing_speech_dropped_witness:
  "50 \<le> (100::nat)
   \<and> speech_loop [1, 0, 0, 0, 1] 100 (nat \<lfloor>real (100::nat) * 0.02\<rfloor>) 0 (False, 0, [])
        = Some (True, 1 / 25, [\<lparr> seg_start = 0, seg_end = 1 / 50 \<rparr>])
   \<and> detectSpeechSegments [1, 0, 0, 0, 1] 100 = Some [\<lparr> seg_start = 0, seg_end = 1 / 50 \<rparr>]
   \<and> seg_end \<lparr> seg_start = 0, seg_end = 1 / 50 \<rparr> < real (length [1, 0, 0, 0, 1 :: real]) / real (100::nat)"
  using trailing_speech_dropped[of 100 "[1, 0, 0, 0, 1]"]
  by (simp add: detectSpeechSegments_def speech_loop.simps speech_step_def slice_def
      calculateWindowEnergy_def js_div_def energyThreshold_def)

text \<open>
  C9. In the list of speech segments and in the list of silence segments,
  every segment ends after it starts, the segments are in increasing time
  order, and any two of them do not overlap (the earlier one ends before the
  later one starts).
\<close>

theorem segments_ordered:
  assumes "100 \<le> sr"
  shows "\<exists>speech silent.
           detectSpeechSegments smp sr = Some speech
         \<and> detectSilentSegments smp sr threshold minDuration = Some silent
         \<and> (\<forall>seg \<in> set speech. seg_start seg < seg_end seg)
         \<and> sorted_wrt (\<lambda>a b. seg_start a < seg_start b) speech
         \<and> sorted_wrt (\<lambda>a b. seg_end a \<le> seg_start b) speech
         \<and> (\<forall>seg \<in> set silent. seg_start seg < seg_end seg)
         \<and> sorted_wrt (\<lambda>a b. seg_start a < seg_start b) silent
         \<and> sorted_wrt (\<lambda>a b. seg_end a \<le> seg_start b) silent"
proof -
  have sr50: "50 \<le> sr" using assms by simp
  from speech_loop_final[OF sr50, of smp] obtain a s speech where
    l: "speech_loop smp sr (nat \<lfloor>real sr * 0.02\<rfloor>) 0 (False, 0, []) = Some (a, s, speech)"
    and p: "\<forall>seg \<in> set speech. seg_start seg < seg_end seg"
       "sorted_wrt (\<lambda>a b. seg_end a < seg_start b) speech"
    by blast
  from silence_loop_final[OF assms, of smp threshold minDuration] obtain a' s' silent where
    l': "silence_loop smp sr threshold minDuration (nat \<lfloor>real sr * 0.01\<rfloor>) 0 (False, 0, [])
           = Some (a', s', silent)"
    and p': "\<forall>seg \<in> set silent. seg_start seg < seg_end seg"
       "sorted_wrt (\<lambda>a b. seg_end a < seg_start b) silent"
    by blast
  have "detectSpeechSegments smp sr = Some speech"
    using l by (simp add: detectSpeechSegments_def)
  moreover have "detectSilentSegments smp sr threshold minDuration = Some silent"
    using l' by (simp add: detectSilentSegments_def)
  ultimately show ?thesis
    using p(1) p'(1) ordered_segments[OF p] ordered_segments[OF p'] by blast
qed

theorem segments_ordered_witness:
  "100 \<le> (100::nat)
   \<and> detectSpeechSegments [1, 1, 0, 0, 1, 1, 0, 0, 1] 100
       = Some [\<lparr> seg_start = 0, seg_end = 1 / 50 \<rparr>, \<lparr> seg_start = 1 / 25, seg_end = 3 / 50 \<rparr>]
   \<and> detectSilentSegments [1, 1, 0, 0, 1, 1, 0, 0, 1] 100 (1 / 100) (1 / 100)
       = Some [\<lparr> seg_start = 1 / 50, seg_end = 1 / 25 \<rparr>, \<lparr> seg_start = 3 / 50, seg_end = 2 / 25 \<rparr>]
   \<and> sorted_wrt (\<lambda>a b. seg_end a \<le> seg_start b)
        [\<lparr> seg_start = 0, seg_end = 1 / 50 \<rparr>, \<lparr> seg_start = 1 / 25, seg_end = 3 / 50 \<rparr>]
   \<and> sorted_wrt (\<lambda>a b. seg_end a \<le> seg_start b)
        [\<lparr> seg_start = 1 / 50, seg_end = 1 / 25 \<rparr>, \<lparr> seg_start = 3 / 50, seg_end = 2 / 25 \<rparr>]"
  using segments_ordered[of 100 "[1, 1, 0, 0, 1, 1, 0, 0, 1]" "1 / 100" "1 / 100"]
  by (simp add: detectSpeechSegments_def speech_loop.simps speech_step_def slice_def
      calculateWindowEnergy_def js_div_def energyThreshold_def
      detectSilentSegments_def silence_loop.simps silence_step_def)

subsection \<open>Pitch track\<close>

lemma pitch_step_fst:
  "fst (pitch_step window period best) = fst best \<or> fst (pitch_step window period best) = period"
  by (cases best) (simp add: pitch_step_def Let_def)

lemma pitch_fold_fst:
  "fst (foldl (\<lambda>best period. pitch_step window period best) best ps) = fst best
   \<or> fst (foldl (\<lambda>best period. pitch_step window period best) best ps) \<in> set ps"
proof (induction ps arbitrary: best)
  case Nil
  then show ?case by simp
next
  case (Cons p ps)
  from Cons.IH[of "pitch_step window p best"] pitch_step_fst[of window p best]
  show ?case by auto
qed

lemma estimatePitch_cases:
  "estimatePitch window sr = 0
   \<or> (\<exists>lag. 0 < lag \<and> nat \<lfloor>real sr / 800\<rfloor> \<le> lag \<and> lag \<le> nat \<lfloor>real sr / 80\<rfloor>
          \<and> estimatePitch window sr = real sr / real lag)"
proof -
  define lo where "lo = nat \<lfloor>real sr / 800\<rfloor>"
  define hi where "hi = nat \<lfloor>real sr / 80\<rfloor>"
  define b where "b = fst (foldl (\<lambda>best period. pitch_step window period best) (0, 0) [lo ..< Suc hi])"
  have e: "estimatePitch window sr = (if b > 0 then real sr / real b else 0)"
    unfolding b_def lo_def hi_def estimatePitch_def Let_def ..
  have "b = fst (0::nat, 0::real) \<or> b \<in> set [lo ..< Suc hi]"
    unfolding b_def by (rule pitch_fold_fst)
  then have "b = 0 \<or> (lo \<le> b \<and> b \<le> hi)"
    by (auto simp del: upt_Suc)
  then show ?thesis
    unfolding lo_def[symmetric] hi_def[symmetric] using e by (cases "b > 0") auto
qed

lemma pitch_fold_no_positive:
  assumes "\<forall>period \<in> set ps. period < length window \<longrightarrow>
             foldl (\<lambda>c i. c + window ! i * window ! (i + period)) 0 [0..<length window - period]
               / real (length window - period) \<le> 0"
  shows "foldl (\<lambda>best period. pitch_step window period best) (0, 0) ps = (0, 0)"
  using assms
proof (induction ps rule: rev_induct)
  case Nil
  then show ?case by simp
next
  case (snoc p ps)
  then have "foldl (\<lambda>best period. pitch_step window period best) (0, 0) ps = (0, 0)" by simp
  moreover have "pitch_step window p (0, 0) = (0, 0)"
    using snoc.prems by (auto simp: pitch_step_def Let_def)
  ultimately show ?case by simp
qed

text \<open>
  C10. Every value collected into the pitch track is strictly positive, is
  \<open>sampleRate / lag\<close> for an integer lag between \<open>\<lfloor>sampleRate / 800\<rfloor>\<close> and
  \<open>\<lfloor>sampleRate / 80\<rfloor>\<close>, and is the estimate of one of the windows. A window
  in which no lag of that range has a positive correlation has the estimate 0,
  which is not collected.
\<close>

theorem pitch_track_in_band:
  assumes "50 \<le> sr"
  shows "(\<exists>pitchValues. pitchTrack smp sr = Some pitchValues
           \<and> (\<forall>p \<in> set pitchValues. 0 < p
                \<and> (\<exists>lag. 0 < lag \<and> nat \<lfloor>real sr / 800\<rfloor> \<le> lag \<and> lag \<le> nat \<lfloor>real sr / 80\<rfloor>
                       \<and> p = real sr / real lag)
                \<and> (\<exists>i. p = estimatePitch (slice smp i (i + nat \<lfloor>real sr * 0.02\<rfloor>)) sr)))
       \<and> ((\<forall>period \<in> {nat \<lfloor>real sr / 800\<rfloor> .. nat \<lfloor>real sr / 80\<rfloor>}. period < length window \<longrightarrow>
             foldl (\<lambda>c i. c + window ! i * window ! (i + period)) 0 [0..<length window - period]
               / real (length window - period) \<le> 0)
           \<longrightarrow> estimatePitch window sr = 0)"
proof
  let ?w = "nat \<lfloor>real sr * 0.02\<rfloor>"
  let ?P = "\<lambda>pv. \<forall>p \<in> set pv. 0 < p
                \<and> (\<exists>lag. 0 < lag \<and> nat \<lfloor>real sr / 800\<rfloor> \<le> lag \<and> lag \<le> nat \<lfloor>real sr / 80\<rfloor>
                       \<and> p = real sr / real lag)
                \<and> (\<exists>i. p = estimatePitch (slice smp i (i + ?w)) sr)"
  have w: "0 < ?w" using assms by (simp add: window_size_20ms del: of_nat_mult)
  have step: "?P (let pitch = estimatePitch (slice smp i (i + ?w)) sr
                  in if pitch > 0 then pv @ [pitch] else pv)" if "?P pv" for i pv
  proof (cases "estimatePitch (slice smp i (i + ?w)) sr > 0")
    case True
    with estimatePitch_cases[of "slice smp i (i + ?w)" sr]
    have "\<exists>lag. 0 < lag \<and> nat \<lfloor>real sr / 800\<rfloor> \<le> lag \<and> lag \<le> nat \<lfloor>real sr / 80\<rfloor>
              \<and> estimatePitch (slice smp i (i + ?w)) sr = real sr / real lag"
      by auto
    with True that show ?thesis by (auto simp: Let_def)
  next
    case False
    with that show ?thesis by (simp add: Let_def)
  qed
  have "?P []" by simp
  from pitch_loop_rule[where P = ?P, OF w step this]
  show "\<exists>pitchValues. pitchTrack smp sr = Some pitchValues \<and> ?P pitchValues"
    unfolding pitchTrack_def by blast
next
  show "(\<forall>period \<in> {nat \<lfloor>real sr / 800\<rfloor> .. nat \<lfloor>real sr / 80\<rfloor>}. period < length window \<longrightarrow>
             foldl (\<lambda>c i. c + window ! i * window ! (i + period)) 0 [0..<length window - period]
               / real (length window - period) \<le> 0)
           \<longrightarrow> estimatePitch window sr = 0"
  proof
    assume a: "\<forall>period \<in> {nat \<lfloor>real sr / 800\<rfloor> .. nat \<lfloor>real sr / 80\<rfloor>}. period < length window \<longrightarrow>
             foldl (\<lambda>c i. c + window ! i * window ! (i + period)) 0 [0..<length window - period]
               / real (length window - period) \<le> 0"
    have "set [nat \<lfloor>real sr / 800\<rfloor> ..< Suc (nat \<lfloor>real sr / 80\<rfloor>)]
            = {nat \<lfloor>real sr / 800\<rfloor> .. nat \<lfloor>real sr / 80\<rfloor>}"
      by (simp only: set_upt atLeastLessThanSuc_atLeastAtMost)
    with a have "foldl (\<lambda>best period. pitch_step window period best) (0, 0)
            [nat \<lfloor>real sr / 800\<rfloor> ..< Suc (nat \<lfloor>real sr / 80\<rfloor>)] = (0, 0)"
      by (intro pitch_fold_no_positive) (simp only:)
    then show "estimatePitch window sr = 0" by (simp add: estimatePitch_def Let_def del: upt_Suc)
  qed
qed

lemma estimatePitch_example:
  "estimatePitch [0, 1, 0, 1, 0, 1, 0, 1, 0, 1, 0, 1, 0, 1, 0, 1] 800 = 400"
  by (simp add: estimatePitch_def pitch_step_def upt_conv_Cons)

theorem pitch_track_in_band_witness:
  "50 \<le> (800::nat)
   \<and> pitchTrack [0, 1, 0, 1, 0, 1, 0, 1, 0, 1, 0, 1, 0, 1, 0, 1, 0] 800 = Some [400]
   \<and> (400::real) = real (800::nat) / real (2::nat)
   \<and> nat \<lfloor>real (800::nat) / 800\<rfloor> \<le> 2 \<and> 2 \<le> nat \<lfloor>real (800::nat) / 80\<rfloor>
   \<and> estimatePitch [0, 0] 800 = 0"
proof -
  have t: "pitchTrack [0, 1, 0, 1, 0, 1, 0, 1, 0, 1, 0, 1, 0, 1, 0, 1, 0] 800 = Some [400]"
    by (simp add: pitchTrack_def pitch_loop.simps slice_def estimatePitch_example)
  have h: "50 \<le> (800::nat)" by simp
  have np: "\<forall>period \<in> {nat \<lfloor>real (800::nat) / 800\<rfloor> .. nat \<lfloor>real (800::nat) / 80\<rfloor>}.
          period < length [0, 0 :: real] \<longrightarrow>
            foldl (\<lambda>c i. c + [0, 0] ! i * [0, 0 :: real] ! (i + period)) 0
              [0..<length [0, 0 :: real] - period]
              / real (length [0, 0 :: real] - period) \<le> 0"
  proof (intro ballI impI)
    fix period :: nat
    assume "period < length [0, 0 :: real]"
    then have "period = 0 \<or> period = 1" by auto
    then show "foldl (\<lambda>c i. c + [0, 0] ! i * [0, 0 :: real] ! (i + period)) 0
              [0..<length [0, 0 :: real] - period]
              / real (length [0, 0 :: real] - period) \<le> 0"
      by (auto simp: upt_conv_Cons)
  qed
  from pitch_track_in_band[where smp = "[0, 1, 0, 1, 0, 1, 0, 1, 0, 1, 0, 1, 0, 1, 0, 1, 0]"
         and window = "[0, 0]", OF h] np
  have "estimatePitch [0, 0] 800 = 0" by (rule conjunct2 [THEN mp])
  with t show ?thesis by simp
qed

subsection \<open>Derived scores\<close>

lemma clamp_eq: "min 5 (max 1 x) = spec_clamp x"
  by (simp add: spec_clamp_def min_def max_def)

lemma math_round_eq: "real_of_int (round (x * 10)) / 10 = spec_round1 x"
  by (simp add: spec_round1_def round_def)

text \<open>
  C4. For every record of scores, confidence is
  \<open>0.3 * volume + 0.3 * clarity + 0.2 * pace\<close> plus 1.0 when
  \<open>3 \<le> tonalVariation \<le> 4\<close> and plus \<open>0.2 * tonalVariation\<close> otherwise, and
  enthusiasm is \<open>0.4 * volume + 0.4 * tonalVariation\<close> plus 1.0 when
  \<open>pace \<ge> 4\<close> and plus \<open>0.2 * pace\<close> otherwise; each is then clamped to
  \<open>[1, 5]\<close> and rounded to one decimal place. Both are functions of the
  primary scores alone.
\<close>

theorem derived_scores_formula:
  "calculateConfidenceFromMetrics m
     = spec_confidence (pace m) (volume m) (clarity m) (tonalVariation m)
   \<and> calculateEnthusiasmFromMetrics m
     = spec_enthusiasm (pace m) (volume m) (tonalVariation m)"
proof
  show "calculateConfidenceFromMetrics m
          = spec_confidence (pace m) (volume m) (clarity m) (tonalVariation m)"
    unfolding calculateConfidenceFromMetrics_def spec_confidence_def Let_def
      math_round_eq clamp_eq
    by (simp add: algebra_simps)
  show "calculateEnthusiasmFromMetrics m
          = spec_enthusiasm (pace m) (volume m) (tonalVariation m)"
    unfolding calculateEnthusiasmFromMetrics_def spec_enthusiasm_def Let_def
      math_round_eq clamp_eq
    by (simp add: algebra_simps)
qed

theorem derived_scores_formula_witness:
  "calculateConfidenceFromMetrics
     \<lparr> pace = 2, volume = 3, clarity = 1, pauseDuration = 2, tonalVariation = 2,
       confidence = 0, enthusiasm = 0 \<rparr> = 2
   \<and> calculateEnthusiasmFromMetrics
     \<lparr> pace = 2, volume = 3, clarity = 1, pauseDuration = 2, tonalVariation = 2,
       confidence = 2, enthusiasm = 0 \<rparr> = 2.4
   \<and> spec_confidence 5 5 5 3 = 5 \<and> spec_enthusiasm 2 2 2 = 2"
proof -
  have "spec_confidence 2 3 1 2 = 2" "spec_enthusiasm 2 3 2 = 2.4"
    "spec_confidence 5 5 5 3 = 5" "spec_enthusiasm 2 2 2 = 2"
    by (simp_all add: spec_confidence_def spec_enthusiasm_def spec_clamp_def spec_round1_def)
  then show ?thesis
    using derived_scores_formula[of "\<lparr> pace = 2, volume = 3, clarity = 1, pauseDuration = 2,
            tonalVariation = 2, confidence = 0, enthusiasm = 0 \<rparr>"]
          derived_scores_formula[of "\<lparr> pace = 2, volume = 3, clarity = 1, pauseDuration = 2,
            tonalVariation = 2, confidence = 2, enthusiasm = 0 \<rparr>"]
    by simp
qed

subsection \<open>Rounding to a double\<close>

lemma rne_bounds: "y - 1 / 2 \<le> of_int (rne y) \<and> of_int (rne y) \<le> y + 1 / 2"
proof -
  define n where "n = \<lfloor>y\<rfloor>"
  have f: "real_of_int n \<le> y" "y < real_of_int n + 1" unfolding n_def by linarith+
  have r: "rne y = (if y - of_int n < 1 / 2 then n
                    else if 1 / 2 < y - of_int n then n + 1
                    else if even n then n else n + 1)"
    by (simp add: rne_def Let_def n_def)
  show ?thesis
  proof (cases "y - of_int n < 1 / 2")
    case True
    then have "rne y = n" using r by simp
    then show ?thesis using f True by simp
  next
    case False
    show ?thesis
    proof (cases "1 / 2 < y - of_int n")
      case True
      then have "rne y = n + 1" using r False by simp
      then show ?thesis using f True by simp
    next
      case half: False
      then have h: "y - of_int n = 1 / 2" using False by linarith
      have "rne y = n \<or> rne y = n + 1" using r by auto
      then show ?thesis using h by auto
    qed
  qed
qed

lemma rne_of_int: "rne (of_int n) = n"
  by (simp add: rne_def)

lemma rne_mono:
  assumes "a \<le> b"
  shows "rne a \<le> rne b"
proof (rule ccontr)
  assume "\<not> rne a \<le> rne b"
  then have gt: "rne b + 1 \<le> rne a" by simp
  then have "real_of_int (rne b) + 1 \<le> real_of_int (rne a)" by linarith
  with rne_bounds[of a] rne_bounds[of b] assms
  have ab: "a = b" by linarith
  with gt show False by simp
qed

lemma two_powr_int: "(2::real) powr (real_of_int k) = 2 powi k"
  by (rule powr_real_of_int') simp_all

lemma two_powi_split: "(2::real) powi (a + b) = 2 powi a * 2 powi b"
  by (rule power_int_add) simp

lemma two_powi_numeral: "(2::real) powi 53 = 9007199254740992" "(2::real) powi 52 = 4503599627370496"
  by simp_all

lemma two_powi_quot: "(2::real) powi (a + b) / 2 powi a = 2 powi b"
  by (simp add: two_powi_split)

lemma floor_log2_bounds:
  assumes "0 < x"
  shows "2 powi \<lfloor>log 2 x\<rfloor> \<le> x" and "x < 2 powi (\<lfloor>log 2 x\<rfloor> + 1)"
proof -
  have "2 powr (of_int \<lfloor>log 2 x\<rfloor>) \<le> 2 powr (log 2 x)"
    by (intro powr_mono) auto
  then show "2 powi \<lfloor>log 2 x\<rfloor> \<le> x"
    using assms by (simp add: two_powr_int)
  have "log 2 x < of_int (\<lfloor>log 2 x\<rfloor> + 1)" by linarith
  then have "2 powr (log 2 x) < 2 powr (of_int (\<lfloor>log 2 x\<rfloor> + 1))"
    by (intro powr_less_mono) simp_all
  then have "x < 2 powr (of_int (\<lfloor>log 2 x\<rfloor> + 1))"
    using assms by simp
  then show "x < 2 powi (\<lfloor>log 2 x\<rfloor> + 1)"
    by (simp only: two_powr_int)
qed

lemma floor_log2_eq:
  assumes "0 < x" "2 powi k \<le> x" "x < 2 powi (k + 1)"
  shows "\<lfloor>log 2 x\<rfloor> = k"
proof -
  have "2 powr (of_int k) \<le> x" "x < 2 powr (of_int (k + 1))"
    using assms by (simp_all only: two_powr_int)
  then have "of_int k \<le> log 2 x" "log 2 x < of_int (k + 1)"
    using assms(1) by (simp_all add: le_log_iff log_less_iff)
  then show ?thesis by linarith
qed

lemma binary64_eval:
  assumes "0 < x" "2 powi k \<le> x" "x < 2 powi (k + 1)" "- 1022 \<le> k"
  shows "binary64 x = 2 powi (k - 52) * of_int (rne (x / 2 powi (k - 52)))"
  using assms floor_log2_eq[OF assms(1-3)] by (simp add: binary64_def Let_def)

lemma binary64_nonneg: "0 \<le> x \<Longrightarrow> 0 \<le> binary64 x"
proof -
  assume x: "0 \<le> x"
  show ?thesis
  proof (cases "x = 0")
    case True then show ?thesis by (simp add: binary64_def)
  next
    case False
    define q :: real where "q = 2 powi (max \<lfloor>log 2 \<bar>x\<bar>\<rfloor> (- 1022) - 52)"
    have q: "0 < q" by (simp add: q_def)
    have "0 \<le> x / q" using x q by simp
    then have "rne 0 \<le> rne (x / q)" by (rule rne_mono)
    then have "0 \<le> rne (x / q)" using rne_of_int[of 0] by simp
    then show ?thesis using False q by (simp add: binary64_def Let_def q_def)
  qed
qed

lemma binary64_mono_pos:
  assumes "0 < x" "x \<le> y"
  shows "binary64 x \<le> binary64 y"
proof -
  define ex where "ex = max \<lfloor>log 2 x\<rfloor> (- 1022)"
  define ey where "ey = max \<lfloor>log 2 y\<rfloor> (- 1022)"
  have y: "0 < y" using assms by simp
  have bx: "binary64 x = 2 powi (ex - 52) * of_int (rne (x / 2 powi (ex - 52)))"
    using assms(1) by (simp add: binary64_def Let_def ex_def)
  have by': "binary64 y = 2 powi (ey - 52) * of_int (rne (y / 2 powi (ey - 52)))"
    using y by (simp add: binary64_def Let_def ey_def)
  have "log 2 x \<le> log 2 y" using assms by simp
  then have "\<lfloor>log 2 x\<rfloor> \<le> \<lfloor>log 2 y\<rfloor>" by (rule floor_mono)
  then have le: "ex \<le> ey" by (simp add: ex_def ey_def)
  show ?thesis
  proof (cases "ex = ey")
    case True
    have "x / 2 powi (ey - 52) \<le> y / 2 powi (ey - 52)"
      using assms(2) by (simp add: divide_right_mono)
    then have "rne (x / 2 powi (ey - 52)) \<le> rne (y / 2 powi (ey - 52))" by (rule rne_mono)
    then show ?thesis unfolding bx by' True
      by (intro mult_left_mono) simp_all
  next
    case False
    with le have lt: "ex < ey" by simp
    then have eyf: "ey = \<lfloor>log 2 y\<rfloor>" by (auto simp: ex_def ey_def)
    have "x < 2 powi (\<lfloor>log 2 x\<rfloor> + 1)" using floor_log2_bounds(2)[OF assms(1)] .
    also have "\<dots> \<le> 2 powi (ex + 1)"
      by (intro power_int_increasing) (simp_all add: ex_def)
    finally have x1: "x < 2 powi (ex + 1)" .
    have "x / 2 powi (ex - 52) \<le> 2 powi (ex + 1) / 2 powi (ex - 52)"
      using x1 by (intro divide_right_mono) simp_all
    also have "\<dots> = 2 powi ((ex - 52) + 53) / 2 powi (ex - 52)"
      by (simp add: add.commute)
    also have "\<dots> = 2 powi 53" by (rule two_powi_quot)
    finally have "rne (x / 2 powi (ex - 52)) \<le> rne (2 powi 53)" by (rule rne_mono)
    moreover have "(2::real) powi 53 = of_int (2 ^ 53)" by simp
    ultimately have "rne (x / 2 powi (ex - 52)) \<le> 2 ^ 53"
      using rne_of_int[of "2 ^ 53"] by simp
    then have "real_of_int (rne (x / 2 powi (ex - 52))) \<le> real_of_int (2 ^ 53)"
      by (simp only: of_int_le_iff)
    then have "real_of_int (rne (x / 2 powi (ex - 52))) \<le> 2 powi 53" by simp
    then have "binary64 x \<le> 2 powi (ex - 52) * 2 powi 53"
      unfolding bx by (intro mult_left_mono) simp_all
    also have "\<dots> = 2 powi (ex + 1)"
      using two_powi_split[of "ex - 52" 53] by (simp add: add.commute)
    also have "\<dots> \<le> 2 powi ey"
      using lt by (intro power_int_increasing) simp_all
    finally have up: "binary64 x \<le> 2 powi ey" .
    have "2 powi ey \<le> y" unfolding eyf using floor_log2_bounds(1)[OF y] .
    then have "2 powi ey / 2 powi (ey - 52) \<le> y / 2 powi (ey - 52)"
      by (intro divide_right_mono) simp_all
    moreover have "2 powi ey / 2 powi (ey - 52) = (2::real) powi 52"
    proof -
      have "2 powi ey / 2 powi (ey - 52) = (2::real) powi ((ey - 52) + 52) / 2 powi (ey - 52)"
        by (simp add: add.commute)
      also have "\<dots> = 2 powi 52" by (rule two_powi_quot)
      finally show ?thesis .
    qed
    ultimately have "rne (2 powi 52) \<le> rne (y / 2 powi (ey - 52))"
      by (intro rne_mono) simp
    moreover have "(2::real) powi 52 = of_int (2 ^ 52)" by simp
    ultimately have "2 ^ 52 \<le> rne (y / 2 powi (ey - 52))"
      using rne_of_int[of "2 ^ 52"] by simp
    then have "real_of_int (2 ^ 52) \<le> real_of_int (rne (y / 2 powi (ey - 52)))"
      by (simp only: of_int_le_iff)
    then have "2 powi 52 \<le> real_of_int (rne (y / 2 powi (ey - 52)))" by simp
    then have "2 powi (ey - 52) * 2 powi 52 \<le> binary64 y"
      unfolding by' by (intro mult_left_mono) simp_all
    moreover have "2 powi (ey - 52) * 2 powi 52 = (2::real) powi ey"
      using two_powi_split[of "ey - 52" 52] by (simp add: add.commute)
    ultimately show ?thesis using up by linarith
  qed
qed

lemma binary64_mono_nonneg:
  assumes "0 \<le> x" "x \<le> y"
  shows "binary64 x \<le> binary64 y"
proof (cases "x = 0")
  case True
  then show ?thesis using assms binary64_nonneg[of y] by (simp add: binary64_def)
next
  case False
  then show ?thesis using assms by (intro binary64_mono_pos) simp_all
qed

subsection \<open>Pace\<close>

lemma foldl_total_seconds:
  "foldl (\<lambda>total seg. binary64 (total + binary64 (binary64 (seg_end seg)
                                                    - binary64 (seg_start seg)))) 0 segs
     = total_seconds segs"
  by (simp add: total_seconds_def foldl_map)

lemma double_sum_nonneg:
  "0 \<le> a \<Longrightarrow> \<forall>d \<in> set ds. 0 \<le> d \<Longrightarrow> 0 \<le> foldl (\<lambda>total d. binary64 (total + d)) a ds"
proof (induction ds arbitrary: a)
  case Nil
  then show ?case by simp
next
  case (Cons d ds)
  have "0 \<le> binary64 (a + d)" using Cons.prems by (intro binary64_nonneg) simp
  then show ?case using Cons by simp
qed

lemma double_duration_nonneg:
  assumes "0 \<le> seg_start seg" "seg_start seg < seg_end seg"
  shows "0 \<le> binary64 (binary64 (seg_end seg) - binary64 (seg_start seg))"
proof -
  have "binary64 (seg_start seg) \<le> binary64 (seg_end seg)"
    using assms by (intro binary64_mono_nonneg) simp_all
  then show ?thesis by (intro binary64_nonneg) simp
qed

lemma total_seconds_nonneg:
  "\<forall>seg \<in> set segs. 0 \<le> seg_start seg \<and> seg_start seg < seg_end seg
     \<Longrightarrow> 0 \<le> total_seconds segs"
  unfolding total_seconds_def
  by (rule double_sum_nonneg) (auto intro: double_duration_nonneg)

text \<open>Every segment of the speech detector starts at a time that is not negative.\<close>

lemma speech_step_nonneg:
  assumes "case st of (a, s, segs) \<Rightarrow> 0 \<le> s \<and> (\<forall>seg \<in> set segs. 0 \<le> seg_start seg)"
  shows "case speech_step smp sr w i st of (a, s, segs) \<Rightarrow>
           0 \<le> s \<and> (\<forall>seg \<in> set segs. 0 \<le> seg_start seg)"
proof -
  obtain a s segs where st: "st = (a, s, segs)" by (cases st) auto
  show ?thesis using assms unfolding st speech_step_def by (auto simp: Let_def)
qed

lemma speech_segments_wellformed:
  assumes "50 \<le> sr"
  shows "\<exists>segs. detectSpeechSegments smp sr = Some segs
           \<and> (\<forall>seg \<in> set segs. 0 \<le> seg_start seg \<and> seg_start seg < seg_end seg)"
proof -
  let ?w = "nat \<lfloor>real sr * 0.02\<rfloor>"
  let ?N = "\<lambda>st :: detector. case st of (a, s, segs) \<Rightarrow>
              0 \<le> s \<and> (\<forall>seg \<in> set segs. 0 \<le> seg_start seg)"
  have w: "0 < ?w" and sr: "0 < sr"
    using assms by (simp_all add: window_size_20ms del: of_nat_mult)
  have step: "detector_inv smp sr (i + ?w) (speech_step smp sr ?w i st)
                \<and> ?N (speech_step smp sr ?w i st)"
    if i: "i < length smp" and inv: "detector_inv smp sr i st \<and> ?N st" for i st
  proof
    show "detector_inv smp sr (i + ?w) (speech_step smp sr ?w i st)"
      using inv by (intro speech_step_inv[OF sr w i]) simp
    show "?N (speech_step smp sr ?w i st)"
      using inv by (intro speech_step_nonneg) simp
  qed
  have init: "detector_inv smp sr 0 (False, 0, []) \<and> ?N (False, 0, [])"
    by (simp add: detector_inv_init)
  from speech_loop_rule[where P = "\<lambda>i st. detector_inv smp sr i st \<and> ?N st", OF w step init]
  obtain st' i' where
    l: "speech_loop smp sr ?w 0 (False, 0, []) = Some st'"
    and p: "detector_inv smp sr i' st'" "?N st'"
    by blast
  obtain a s segs where st': "st' = (a, s, segs)" by (cases st') auto
  have "detectSpeechSegments smp sr = Some segs"
    using l by (simp add: detectSpeechSegments_def st')
  moreover have "\<forall>seg \<in> set segs. 0 \<le> seg_start seg \<and> seg_start seg < seg_end seg"
    using p unfolding st' detector_inv_def by auto
  ultimately show ?thesis by blast
qed

text \<open>
  C5. The pace score is the bucket of the speech rate, which is the number of
  detected speech segments divided by the total speech time in seconds, and 0
  when that time is 0. The total and the quotient are the doubles that the
  program computes. The buckets are: below 1.5 gives 2, below 2.5 gives 3,
  below 4.0 gives 5, below 5.0 gives 4, anything else 3; so the rates 1.0,
  2.0, 3.0, 4.5 and 6.0 give 2, 3, 5, 4 and 3. (The sample rate is at least
  50, so that the window is not empty; the pipeline uses 44100.)
\<close>

theorem pace_score_formula:
  assumes "50 \<le> sampleRate audioData"
  shows "(\<exists>segs. detectSpeechSegments (samples audioData) (sampleRate audioData) = Some segs
            \<and> calculateRealPace audioData
                = Some (spec_paceScore (spec_speechRate (length segs) (total_seconds segs))))
       \<and> spec_paceScore 1.0 = 2 \<and> spec_paceScore 2.0 = 3 \<and> spec_paceScore 3.0 = 5
       \<and> spec_paceScore 4.5 = 4 \<and> spec_paceScore 6.0 = 3"
proof -
  from speech_segments_wellformed[OF assms, of "samples audioData"] obtain segs where
    d: "detectSpeechSegments (samples audioData) (sampleRate audioData) = Some segs"
    and p: "\<forall>seg \<in> set segs. 0 \<le> seg_start seg \<and> seg_start seg < seg_end seg" by blast
  have nn: "0 \<le> total_seconds segs" using p by (rule total_seconds_nonneg)
  have r: "(if total_seconds segs > 0
            then binary64 (real (length segs) / total_seconds segs) else 0)
            = spec_speechRate (length segs) (total_seconds segs)"
    using nn by (auto simp: spec_speechRate_def)
  have "calculateRealPace audioData
          = Some (spec_paceScore (if total_seconds segs > 0
                                  then binary64 (real (length segs) / total_seconds segs)
                                  else 0))"
    unfolding calculateRealPace_def d option.case Let_def foldl_total_seconds spec_paceScore_def
    by (rule refl)
  then have "calculateRealPace audioData
          = Some (spec_paceScore (spec_speechRate (length segs) (total_seconds segs)))"
    by (simp only: r)
  with d show ?thesis by (simp add: spec_paceScore_def)
qed

text \<open>
  One speech run from 0.36 s to 0.56 s: the exact quotient \<open>1 / (0.56 - 0.36)\<close>
  is 5, the double quotient is \<open>5 - 2 ^ -49\<close>, and the score is 4.
\<close>

lemma double_rate_example:
  "binary64 (14 / 25) = 5044031582654956 / 9007199254740992"
  "binary64 (9 / 25) = 6485183463413514 / 18014398509481984"
  "binary64 (1801439850948199 / 9007199254740992) = 1801439850948199 / 9007199254740992"
  "binary64 (9007199254740992 / 1801439850948199) = 2814749767106559 / 562949953421312"
proof -
  show "binary64 (14 / 25) = 5044031582654956 / 9007199254740992"
    by (subst binary64_eval[where k = "- 1"]) (simp_all add: rne_def power_int_minus)
  show "binary64 (9 / 25) = 6485183463413514 / 18014398509481984"
    by (subst binary64_eval[where k = "- 2"]) (simp_all add: rne_def power_int_minus)
  show "binary64 (1801439850948199 / 9007199254740992) = 1801439850948199 / 9007199254740992"
    by (subst binary64_eval[where k = "- 3"]) (simp_all add: rne_def power_int_minus)
  show "binary64 (9007199254740992 / 1801439850948199) = 2814749767106559 / 562949953421312"
    by (subst binary64_eval[where k = 2]) (simp_all add: rne_def power_int_minus)
qed

theorem pace_score_formula_witness:
  "50 \<le> sampleRate \<lparr> buffer = [], sampleRate = 50, channels = 1, duration = 0,
        samples = [0, 0, 0, 0, 0, 0, 0, 0, 0, 0, 0, 0, 0, 0, 0, 0, 0, 0,
                   1, 1, 1, 1, 1, 1, 1, 1, 1, 1, 0] \<rparr>
   \<and> detectSpeechSegments
        [0, 0, 0, 0, 0, 0, 0, 0, 0, 0, 0, 0, 0, 0, 0, 0, 0, 0, 1, 1, 1, 1, 1, 1, 1, 1, 1, 1, 0] 50
       = Some [\<lparr> seg_start = 9 / 25, seg_end = 14 / 25 \<rparr>]
   \<and> total_seconds [\<lparr> seg_start = 9 / 25, seg_end = 14 / 25 \<rparr>]
       = 1801439850948199 / 9007199254740992
   \<and> spec_speechRate 1 (1801439850948199 / 9007199254740992)
       = 2814749767106559 / 562949953421312
   \<and> calculateRealPace \<lparr> buffer = [], sampleRate = 50, channels = 1, duration = 0,
        samples = [0, 0, 0, 0, 0, 0, 0, 0, 0, 0, 0, 0, 0, 0, 0, 0, 0, 0,
                   1, 1, 1, 1, 1, 1, 1, 1, 1, 1, 0] \<rparr>
       = Some 4
   \<and> (1::real) / (14 / 25 - 9 / 25) = 5"
proof -
  let ?ad = "\<lparr> buffer = [], sampleRate = 50, channels = 1, duration = 0,
        samples = [0, 0, 0, 0, 0, 0, 0, 0, 0, 0, 0, 0, 0, 0, 0, 0, 0, 0,
                   1, 1, 1, 1, 1, 1, 1, 1, 1, 1, 0] \<rparr>"
  let ?seg = "\<lparr> seg_start = 9 / 25, seg_end = 14 / 25 \<rparr>"
  have h: "50 \<le> sampleRate ?ad" by simp
  have d: "detectSpeechSegments (samples ?ad) (sampleRate ?ad) = Some [?seg]"
    by (simp add: detectSpeechSegments_def speech_loop.simps speech_step_def slice_def
        calculateWindowEnergy_def js_div_def energyThreshold_def)
  have t: "total_seconds [?seg] = 1801439850948199 / 9007199254740992"
    by (simp add: total_seconds_def double_rate_example)
  have r: "spec_speechRate (length [?seg]) (1801439850948199 / 9007199254740992)
             = 2814749767106559 / 562949953421312"
    by (simp add: spec_speechRate_def double_rate_example)
  have b: "spec_paceScore (2814749767106559 / 562949953421312) = 4"
    by (simp add: spec_paceScore_def)
  from pace_score_formula[OF h] obtain segs where
    "detectSpeechSegments (samples ?ad) (sampleRate ?ad) = Some segs"
    "calculateRealPace ?ad = Some (spec_paceScore (spec_speechRate (length segs) (total_seconds segs)))"
    by blast
  with d have "calculateRealPace ?ad
      = Some (spec_paceScore (spec_speechRate (length [?seg]) (total_seconds [?seg])))"
    by auto
  then have c: "calculateRealPace ?ad = Some 4"
    by (simp only: t r b)
  have r1: "spec_speechRate 1 (1801439850948199 / 9007199254740992)
             = 2814749767106559 / 562949953421312"
    using r by simp
  have d1: "detectSpeechSegments
        [0, 0, 0, 0, 0, 0, 0, 0, 0, 0, 0, 0, 0, 0, 0, 0, 0, 0, 1, 1, 1, 1, 1, 1, 1, 1, 1, 1, 0] 50
       = Some [?seg]"
    using d by simp
  have q: "(1::real) / (14 / 25 - 9 / 25) = 5" by simp
  from h d1 t r1 c q show ?thesis by (intro conjI)
qed

subsection \<open>Ranges of the scores\<close>

lemma pace_range:
  assumes "50 \<le> sampleRate audioData"
  shows "\<exists>p. calculateRealPace audioData = Some p \<and> p \<in> {2, 3, 4, 5}"
proof -
  from speech_loop_final[OF assms, of "samples audioData"] obtain a s segs where
    "speech_loop (samples audioData) (sampleRate audioData)
          (nat \<lfloor>real (sampleRate audioData) * 0.02\<rfloor>) 0 (False, 0, []) = Some (a, s, segs)"
    by blast
  then have "detectSpeechSegments (samples audioData) (sampleRate audioData) = Some segs"
    by (simp add: detectSpeechSegments_def)
  then show ?thesis by (simp add: calculateRealPace_def Let_def)
qed

lemma volume_range: "calculateRealVolume audioData \<in> {2, 3, 4, 5}"
  by (simp add: calculateRealVolume_def Let_def)

lemma clarity_range: "calculateRealClarity audioData \<in> {1, 2, 3, 4, 5, 3.8}"
  by (simp add: calculateRealClarity_def Let_def split: sum.split)

lemma pauses_range:
  assumes "100 \<le> sampleRate audioData"
  shows "\<exists>p. calculateRealPauses audioData = Some p \<and> p \<in> {2, 3, 4, 5}"
proof -
  from silence_loop_final[OF assms, of "samples audioData" "0.01" "0.2"] obtain a s segs where
    "silence_loop (samples audioData) (sampleRate audioData) 0.01 0.2
       (nat \<lfloor>real (sampleRate audioData) * 0.01\<rfloor>) 0 (False, 0, []) = Some (a, s, segs)"
    by blast
  then have "detectSilentSegments (samples audioData) (sampleRate audioData) 0.01 0.2 = Some segs"
    by (simp add: detectSilentSegments_def)
  then show ?thesis by (simp add: calculateRealPauses_def Let_def)
qed

lemma pitchTrack_returns:
  assumes "50 \<le> sr"
  shows "\<exists>pv. pitchTrack smp sr = Some pv"
proof -
  have w: "0 < nat \<lfloor>real sr * 0.02\<rfloor>"
    using assms by (simp add: window_size_20ms del: of_nat_mult)
  from pitch_loop_rule[where P = "\<lambda>pv. True", OF w]
  show ?thesis unfolding pitchTrack_def by blast
qed

lemma tonal_range:
  assumes "50 \<le> sampleRate audioData"
  shows "\<exists>t. calculateRealTonalVariation audioData = Some t \<and> t \<in> {2, 3, 4, 5}"
proof -
  from pitchTrack_returns[OF assms, of "samples audioData"] obtain pv where
    "pitchTrack (samples audioData) (sampleRate audioData) = Some pv" by blast
  then show ?thesis by (simp add: calculateRealTonalVariation_def Let_def)
qed

lemma round1_clamp_range: "1 \<le> spec_round1 (spec_clamp x) \<and> spec_round1 (spec_clamp x) \<le> 5"
proof -
  define c where "c = spec_clamp x"
  have c: "1 \<le> c" "c \<le> 5" by (simp_all add: c_def spec_clamp_def)
  have "(10::int) \<le> \<lfloor>c * 10 + 1 / 2\<rfloor>" using c by (simp add: le_floor_iff)
  moreover have "\<lfloor>c * 10 + 1 / 2\<rfloor> \<le> (50::int)" using c by (simp add: floor_le_iff)
  ultimately have "10 \<le> real_of_int \<lfloor>c * 10 + 1 / 2\<rfloor>" "real_of_int \<lfloor>c * 10 + 1 / 2\<rfloor> \<le> 50"
    by linarith+
  then show ?thesis unfolding spec_round1_def c_def[symmetric] by simp
qed


lemma confidence_range:
  "1 \<le> calculateConfidenceFromMetrics m \<and> calculateConfidenceFromMetrics m \<le> 5"
  unfolding calculateConfidenceFromMetrics_def Let_def math_round_eq clamp_eq
  by (rule round1_clamp_range)

lemma enthusiasm_range:
  "1 \<le> calculateEnthusiasmFromMetrics m \<and> calculateEnthusiasmFromMetrics m \<le> 5"
  unfolding calculateEnthusiasmFromMetrics_def Let_def math_round_eq clamp_eq
  by (rule round1_clamp_range)

lemma computeMetrics_range:
  assumes "100 \<le> sampleRate audioData"
  shows "\<exists>m. computeMetrics audioData = Some m
           \<and> pace m \<in> {2, 3, 4, 5} \<and> volume m \<in> {2, 3, 4, 5}
           \<and> clarity m \<in> {1, 2, 3, 4, 5, 3.8} \<and> pauseDuration m \<in> {2, 3, 4, 5}
           \<and> tonalVariation m \<in> {2, 3, 4, 5}
           \<and> 1 \<le> confidence m \<and> confidence m \<le> 5
           \<and> 1 \<le> enthusiasm m \<and> enthusiasm m \<le> 5
           \<and> calculateRealPace audioData = Some (pace m)
           \<and> volume m = calculateRealVolume audioData
           \<and> clarity m = calculateRealClarity audioData
           \<and> calculateRealPauses audioData = Some (pauseDuration m)
           \<and> calculateRealTonalVariation audioData = Some (tonalVariation m)"
proof -
  have sr50: "50 \<le> sampleRate audioData" using assms by simp
  from pace_range[OF sr50] obtain p where
    p: "calculateRealPace audioData = Some p" "p \<in> {2, 3, 4, 5}" by blast
  from pauses_range[OF assms] obtain pd where
    pd: "calculateRealPauses audioData = Some pd" "pd \<in> {2, 3, 4, 5}" by blast
  from tonal_range[OF sr50] obtain tv where
    tv: "calculateRealTonalVariation audioData = Some tv" "tv \<in> {2, 3, 4, 5}" by blast
  define m0 where "m0 = \<lparr> pace = p, volume = calculateRealVolume audioData,
                    clarity = calculateRealClarity audioData, pauseDuration = pd,
                    tonalVariation = tv, confidence = 0, enthusiasm = 0 \<rparr>"
  define m1 where "m1 = m0\<lparr> confidence := calculateConfidenceFromMetrics m0 \<rparr>"
  define m2 where "m2 = m1\<lparr> enthusiasm := calculateEnthusiasmFromMetrics m1 \<rparr>"
  have c: "computeMetrics audioData = Some m2"
    by (simp add: computeMetrics_def p(1) pd(1) tv(1) Let_def m0_def m1_def m2_def)
  have f: "pace m2 = p" "volume m2 = calculateRealVolume audioData"
    "clarity m2 = calculateRealClarity audioData" "pauseDuration m2 = pd"
    "tonalVariation m2 = tv" "confidence m2 = calculateConfidenceFromMetrics m0"
    "enthusiasm m2 = calculateEnthusiasmFromMetrics m1"
    by (simp_all add: m0_def m1_def m2_def)
  show ?thesis
    using c p pd tv volume_range[of audioData] clarity_range[of audioData]
      confidence_range[of m0] enthusiasm_range[of m1]
    unfolding f[symmetric] by blast
qed

lemma processAudioBuffer_Buffer:
  "\<exists>smp. extractSamplesFromBuffer buf = Inr smp \<and> length smp = length buf div 2
     \<and> processAudioBuffer (Buffer buf)
         = Inr \<lparr> buffer = buf, sampleRate = 44100, channels = 1,
                 duration = real (length buf) / (44100 * 2), samples = smp \<rparr>"
  by (simp add: processAudioBuffer_def extractSamples_eq)

subsection \<open>The pipeline on three short buffers\<close>

lemma log10_epsilon: "log 10 (1 / 10000000000) = - 10"
proof -
  have p: "(10000000000::real) = 10 ^ 10" by simp
  have "log 10 (10 ^ 10) = real 10 * log 10 10"
    by (rule log_nat_power) simp
  then have "log 10 (10 ^ 10) = 10" by simp
  moreover have "log 10 (1 / 10 ^ 10) = - log 10 (10 ^ 10)"
    by (subst log_divide) simp_all
  ultimately have "log 10 (1 / 10 ^ 10) = - 10" by simp
  then show ?thesis by (simp only: p)
qed

lemma decode_examples:
  "processAudioBuffer (Buffer []) = Inr \<lparr> buffer = [], sampleRate = 44100, channels = 1,
       duration = 0, samples = [] \<rparr>"
  "processAudioBuffer (Buffer [0, 0]) = Inr \<lparr> buffer = [0, 0], sampleRate = 44100, channels = 1,
       duration = 1 / 44100, samples = [0] \<rparr>"
  "processAudioBuffer (Buffer [0, 0, 0, 0]) = Inr \<lparr> buffer = [0, 0, 0, 0], sampleRate = 44100,
       channels = 1, duration = 2 / 44100, samples = [0, 0] \<rparr>"
  by (simp_all add: processAudioBuffer_def extractSamplesFromBuffer_def readInt16LE_def)

lemma speech_segments_examples:
  "detectSpeechSegments [] 44100 = Some []"
  "detectSpeechSegments [0] 44100 = Some []"
  "detectSpeechSegments [0, 0] 44100 = Some []"
  by (simp_all add: detectSpeechSegments_def speech_loop.simps speech_step_def slice_def
      calculateWindowEnergy_def js_div_def energyThreshold_def)

lemma silent_segments_examples:
  "detectSilentSegments [] 44100 (1 / 100) (1 / 5) = Some []"
  "detectSilentSegments [0] 44100 (1 / 100) (1 / 5) = Some []"
  "detectSilentSegments [0, 0] 44100 (1 / 100) (1 / 5) = Some []"
  by (simp_all add: detectSilentSegments_def silence_loop.simps silence_step_def slice_def
      calculateWindowEnergy_def js_div_def)

lemma pitchTrack_examples:
  "pitchTrack [] 44100 = Some []"
  "pitchTrack [0] 44100 = Some []"
  "pitchTrack [0, 0] 44100 = Some []"
  by (simp_all add: pitchTrack_def pitch_loop.simps)

lemma performFFT_examples:
  "performFFT [] = Inr []"
  "performFFT [0] = Inl RangeError"
  "performFFT [0, 0] = Inr [0]"
  by (simp_all add: performFFT_def dft_angle_def)


lemma round_examples:
  "round (127 / 5 :: real) = 25" "round (17 :: real) = 17" "round (20 :: real) = 20"
  "round (24 :: real) = 24"
  unfolding round_def by simp_all

lemma volume_examples:
  "calculateRealVolume \<lparr> buffer = b0, sampleRate = 44100, channels = ch, duration = d0,
       samples = [] \<rparr> = 3"
  "calculateRealVolume \<lparr> buffer = b1, sampleRate = 44100, channels = ch, duration = d1,
       samples = [0] \<rparr> = 2"
  "calculateRealVolume \<lparr> buffer = b2, sampleRate = 44100, channels = ch, duration = d2,
       samples = [0, 0] \<rparr> = 2"
  by (simp_all add: calculateRealVolume_def js_div_def log10_epsilon)

lemma clarity_examples:
  "calculateRealClarity \<lparr> buffer = b0, sampleRate = 44100, channels = ch, duration = d0,
       samples = [] \<rparr> = 1"
  "calculateRealClarity \<lparr> buffer = b1, sampleRate = 44100, channels = ch, duration = d1,
       samples = [0] \<rparr> = 3.8"
  "calculateRealClarity \<lparr> buffer = b2, sampleRate = 44100, channels = ch, duration = d2,
       samples = [0, 0] \<rparr> = 1"
  by (simp_all add: calculateRealClarity_def performFFT_examples getFrequencyRange_def)

lemma pace_examples:
  "calculateRealPace \<lparr> buffer = b0, sampleRate = 44100, channels = ch, duration = d0,
       samples = [] \<rparr> = Some 2"
  "calculateRealPace \<lparr> buffer = b1, sampleRate = 44100, channels = ch, duration = d1,
       samples = [0] \<rparr> = Some 2"
  "calculateRealPace \<lparr> buffer = b2, sampleRate = 44100, channels = ch, duration = d2,
       samples = [0, 0] \<rparr> = Some 2"
  by (simp_all add: calculateRealPace_def speech_segments_examples)

lemma pauses_examples:
  "calculateRealPauses \<lparr> buffer = b0, sampleRate = 44100, channels = ch, duration = d0,
       samples = [] \<rparr> = Some 2"
  "calculateRealPauses \<lparr> buffer = b1, sampleRate = 44100, channels = ch, duration = d1,
       samples = [0] \<rparr> = Some 2"
  "calculateRealPauses \<lparr> buffer = b2, sampleRate = 44100, channels = ch, duration = d2,
       samples = [0, 0] \<rparr> = Some 2"
  by (simp_all add: calculateRealPauses_def silent_segments_examples js_div_def)

lemma tonal_examples:
  "calculateRealTonalVariation \<lparr> buffer = b0, sampleRate = 44100, channels = ch, duration = d0,
       samples = [] \<rparr> = Some 2"
  "calculateRealTonalVariation \<lparr> buffer = b1, sampleRate = 44100, channels = ch, duration = d1,
       samples = [0] \<rparr> = Some 2"
  "calculateRealTonalVariation \<lparr> buffer = b2, sampleRate = 44100, channels = ch, duration = d2,
       samples = [0, 0] \<rparr> = Some 2"
  by (simp_all add: calculateRealTonalVariation_def pitchTrack_examples)

lemmas score_examples =
  decode_examples pace_examples volume_examples clarity_examples pauses_examples tonal_examples

lemma analyze_empty_buffer:
  "analyzeAudioProperties (Buffer [])
     = Some \<lparr> pace = 2, volume = 3, clarity = 1, pauseDuration = 2, tonalVariation = 2,
              confidence = 2, enthusiasm = 2.4 \<rparr>"
  by (simp add: analyzeAudioProperties_def computeMetrics_def score_examples
      calculateConfidenceFromMetrics_def calculateEnthusiasmFromMetrics_def round_examples)

lemma analyze_one_zero_sample:
  "analyzeAudioProperties (Buffer [0, 0])
     = Some \<lparr> pace = 2, volume = 2, clarity = 3.8, pauseDuration = 2, tonalVariation = 2,
              confidence = 2.5, enthusiasm = 2 \<rparr>"
  by (simp add: analyzeAudioProperties_def computeMetrics_def score_examples
      calculateConfidenceFromMetrics_def calculateEnthusiasmFromMetrics_def round_examples)

lemma analyze_two_zero_samples:
  "analyzeAudioProperties (Buffer [0, 0, 0, 0])
     = Some \<lparr> pace = 2, volume = 2, clarity = 1, pauseDuration = 2, tonalVariation = 2,
              confidence = 1.7, enthusiasm = 2 \<rparr>"
  by (simp add: analyzeAudioProperties_def computeMetrics_def score_examples
      calculateConfidenceFromMetrics_def calculateEnthusiasmFromMetrics_def round_examples)

lemma analyze_undefined: "analyzeAudioProperties Undefined = Some fallbackMetrics"
  by (simp add: analyzeAudioProperties_def processAudioBuffer_def)

subsection \<open>Spectrum\<close>

lemma foldl_plus_sum_list:
  "foldl (\<lambda>s x. s + f x) a xs = a + sum_list (map f xs)"
  for a :: real
  by (induction xs arbitrary: a) simp_all

lemma foldl_plus_upt:
  "foldl (\<lambda>s n. s + f n) 0 [m..<n] = (\<Sum>i = m..<n. f i)"
  for f :: "nat \<Rightarrow> real"
  by (simp add: foldl_plus_sum_list interv_sum_list_conv_sum_set_nat del: upt_Suc)

lemma performFFT_odd:
  "odd (min 1024 (length smp)) \<Longrightarrow> performFFT smp = Inl RangeError"
  by (simp add: performFFT_def Let_def)

lemma performFFT_even:
  assumes "even (min 1024 (length smp))"
  shows "\<exists>magnitude. performFFT smp = Inr magnitude
           \<and> length magnitude = min 1024 (length smp) div 2
           \<and> (\<forall>k < length magnitude.
                 magnitude ! k =
                   sqrt ((\<Sum>n = 0..<min 1024 (length smp).
                            smp ! n * cos (dft_angle k n (min 1024 (length smp))))\<^sup>2
                       + (\<Sum>n = 0..<min 1024 (length smp).
                            smp ! n * sin (dft_angle k n (min 1024 (length smp))))\<^sup>2))"
proof -
  define N where "N = min 1024 (length smp)"
  have N: "N \<le> length smp" by (simp add: N_def)
  define re where "re = map (\<lambda>i. if i < length smp then smp ! i else 0) [0..<N]"
  have re: "re ! n = smp ! n" if "n < N" for n
    using that N by (simp add: re_def)
  define mag where "mag = (\<lambda>k. sqrt ((\<Sum>n = 0..<N. smp ! n * cos (dft_angle k n N))\<^sup>2
                                + (\<Sum>n = 0..<N. smp ! n * sin (dft_angle k n N))\<^sup>2))"
  have s1: "foldl (\<lambda>s n. s + (re ! n * cos (dft_angle k n N)
                                - replicate N (0::real) ! n * sin (dft_angle k n N))) 0 [0..<N]
            = (\<Sum>n = 0..<N. smp ! n * cos (dft_angle k n N))" for k
    unfolding foldl_plus_upt by (rule sum.cong) (simp_all add: re)
  have s2: "foldl (\<lambda>s n. s + (re ! n * sin (dft_angle k n N)
                                + replicate N (0::real) ! n * cos (dft_angle k n N))) 0 [0..<N]
            = (\<Sum>n = 0..<N. smp ! n * sin (dft_angle k n N))" for k
    unfolding foldl_plus_upt by (rule sum.cong) (simp_all add: re)
  have "performFFT smp = Inr (map mag [0..<N div 2])"
    using assms
    unfolding performFFT_def Let_def N_def[symmetric] re_def[symmetric] s1 s2 mag_def
    by (simp add: power2_eq_square)
  then show ?thesis
    unfolding N_def[symmetric] by (simp add: mag_def)
qed

lemma getFrequencyRange_sum:
  assumes "0 < sr"
  shows "getFrequencyRange spectrum freqMin freqMax sr =
           (\<Sum>i \<in> {nat \<lfloor>real freqMin / (real sr / (2 * real (length spectrum)))\<rfloor> ..
                      nat \<lfloor>real freqMax / (real sr / (2 * real (length spectrum)))\<rfloor>}
                    \<inter> {..<length spectrum}. spectrum ! i)"
proof (cases "spectrum = []")
  case True
  then show ?thesis by (simp add: getFrequencyRange_def)
next
  case False
  define lo where "lo = nat \<lfloor>real freqMin / (real sr / (2 * real (length spectrum)))\<rfloor>"
  define hi where "hi = nat \<lfloor>real freqMax / (real sr / (2 * real (length spectrum)))\<rfloor>"
  have "{lo..hi} \<inter> {..<length spectrum} = {lo..<min (Suc hi) (length spectrum)}" by auto
  then show ?thesis
    using False assms
    unfolding getFrequencyRange_def Let_def lo_def[symmetric] hi_def[symmetric] foldl_plus_upt
    by simp
qed

subsection \<open>The exported function\<close>

lemma processAudioBuffer_sampleRate:
  "processAudioBuffer audioBuffer = Inr audioData \<Longrightarrow> sampleRate audioData = 44100"
  by (auto simp: processAudioBuffer_def split: jsval.splits sum.splits)

lemma pace_fallback: "pace m \<in> {2, 3, 4, 5} \<Longrightarrow> m \<noteq> fallbackMetrics"
  by (auto simp: fallbackMetrics_def)

text \<open>
  C3. For every argument, the pipeline returns a record, and each of its seven
  fields (pace, volume, clarity, pauseDuration, tonalVariation, confidence and
  enthusiasm) lies in the closed interval \<open>[1, 5]\<close>; this includes buffers of
  all-zero samples.
\<close>

theorem all_scores_in_range:
  "\<exists>m. analyzeAudioProperties audioBuffer = Some m
       \<and> 1 \<le> pace m \<and> pace m \<le> 5
       \<and> 1 \<le> volume m \<and> volume m \<le> 5
       \<and> 1 \<le> clarity m \<and> clarity m \<le> 5
       \<and> 1 \<le> pauseDuration m \<and> pauseDuration m \<le> 5
       \<and> 1 \<le> tonalVariation m \<and> tonalVariation m \<le> 5
       \<and> 1 \<le> confidence m \<and> confidence m \<le> 5
       \<and> 1 \<le> enthusiasm m \<and> enthusiasm m \<le> 5"
proof (cases "processAudioBuffer audioBuffer")
  case (Inl e)
  then have "analyzeAudioProperties audioBuffer = Some fallbackMetrics"
    by (simp add: analyzeAudioProperties_def)
  then show ?thesis by (simp add: fallbackMetrics_def)
next
  case (Inr audioData)
  then have "100 \<le> sampleRate audioData"
    using processAudioBuffer_sampleRate by simp
  from computeMetrics_range[OF this] obtain m where
    m: "computeMetrics audioData = Some m"
    "pace m \<in> {2, 3, 4, 5}" "volume m \<in> {2, 3, 4, 5}"
    "clarity m \<in> {1, 2, 3, 4, 5, 3.8}" "pauseDuration m \<in> {2, 3, 4, 5}"
    "tonalVariation m \<in> {2, 3, 4, 5}"
    "1 \<le> confidence m \<and> confidence m \<le> 5" "1 \<le> enthusiasm m \<and> enthusiasm m \<le> 5"
    by blast
  have a: "analyzeAudioProperties audioBuffer = Some m"
    using Inr m(1) by (simp add: analyzeAudioProperties_def)
  have "1 \<le> pace m \<and> pace m \<le> 5" using m(2) by auto
  moreover have "1 \<le> volume m \<and> volume m \<le> 5" using m(3) by auto
  moreover have "1 \<le> clarity m \<and> clarity m \<le> 5" using m(4) by auto
  moreover have "1 \<le> pauseDuration m \<and> pauseDuration m \<le> 5" using m(5) by auto
  moreover have "1 \<le> tonalVariation m \<and> tonalVariation m \<le> 5" using m(6) by auto
  ultimately show ?thesis using a m(7,8) by blast
qed

theorem all_scores_in_range_witness:
  "analyzeAudioProperties (Buffer [0, 0, 0, 0])
     = Some \<lparr> pace = 2, volume = 2, clarity = 1, pauseDuration = 2, tonalVariation = 2,
              confidence = 1.7, enthusiasm = 2 \<rparr>
   \<and> (1::real) \<le> 1.7 \<and> (1.7::real) \<le> 5"
proof -
  from all_scores_in_range[of "Buffer [0, 0, 0, 0]"] obtain m where
    m: "analyzeAudioProperties (Buffer [0, 0, 0, 0]) = Some m"
       "1 \<le> confidence m" "confidence m \<le> 5"
    by blast
  from m(1) have "m = \<lparr> pace = 2, volume = 2, clarity = 1, pauseDuration = 2, tonalVariation = 2,
              confidence = 1.7, enthusiasm = 2 \<rparr>"
    by (simp add: analyze_two_zero_samples)
  with m show ?thesis by simp
qed

lemma decode_three_bytes:
  "processAudioBuffer (Buffer [0, 0, 0]) = Inr \<lparr> buffer = [0, 0, 0], sampleRate = 44100,
       channels = 1, duration = 1 / 29400, samples = [0] \<rparr>"
  by (simp add: processAudioBuffer_def extractSamplesFromBuffer_def readInt16LE_def)

text \<open>
  The empty buffer and a buffer of three bytes are decoded without an error,
  and the record returned for them is computed, not the fixed fallback record.
\<close>

theorem empty_or_odd_buffer_counterexample:
  "extractSamplesFromBuffer [] = Inr []
   \<and> analyzeAudioProperties (Buffer [])
       = Some \<lparr> pace = 2, volume = 3, clarity = 1, pauseDuration = 2, tonalVariation = 2,
                confidence = 2, enthusiasm = 2.4 \<rparr>
   \<and> analyzeAudioProperties (Buffer []) \<noteq> Some fallbackMetrics
   \<and> extractSamplesFromBuffer [0, 0, 0] = Inr [0]
   \<and> analyzeAudioProperties (Buffer [0, 0, 0])
       = Some \<lparr> pace = 2, volume = 2, clarity = 3.8, pauseDuration = 2, tonalVariation = 2,
                confidence = 2.5, enthusiasm = 2 \<rparr>
   \<and> analyzeAudioProperties (Buffer [0, 0, 0]) \<noteq> Some fallbackMetrics"
proof -
  have "analyzeAudioProperties (Buffer [0, 0, 0])
       = Some \<lparr> pace = 2, volume = 2, clarity = 3.8, pauseDuration = 2, tonalVariation = 2,
                confidence = 2.5, enthusiasm = 2 \<rparr>"
    by (simp add: analyzeAudioProperties_def computeMetrics_def decode_three_bytes
        pace_examples volume_examples clarity_examples pauses_examples tonal_examples
        calculateConfidenceFromMetrics_def calculateEnthusiasmFromMetrics_def round_examples)
  then show ?thesis
    by (simp add: analyze_empty_buffer fallbackMetrics_def extractSamplesFromBuffer_def
        readInt16LE_def)
qed

text \<open>
  C1, as amended. For every byte buffer whose length is 0 or odd, decoding
  does not fail: it gives \<open>length div 2\<close> samples (a last odd byte is ignored).
  The exported function does not raise; it returns the record computed from
  those samples, which is never the fixed fallback record.
\<close>

theorem empty_or_odd_buffer_is_analysed:
  assumes "length buf = 0 \<or> odd (length buf)"
  shows "\<exists>smp m. extractSamplesFromBuffer buf = Inr smp
           \<and> length smp = length buf div 2
           \<and> computeMetrics \<lparr> buffer = buf, sampleRate = 44100, channels = 1,
                               duration = real (length buf) / (44100 * 2), samples = smp \<rparr>
               = Some m
           \<and> analyzeAudioProperties (Buffer buf) = Some m
           \<and> m \<noteq> fallbackMetrics"
proof -
  from processAudioBuffer_Buffer[of buf] obtain smp where
    s: "extractSamplesFromBuffer buf = Inr smp" "length smp = length buf div 2"
    and p: "processAudioBuffer (Buffer buf)
         = Inr \<lparr> buffer = buf, sampleRate = 44100, channels = 1,
                 duration = real (length buf) / (44100 * 2), samples = smp \<rparr>"
    by blast
  define ad where "ad = \<lparr> buffer = buf, sampleRate = 44100, channels = 1,
                 duration = real (length buf) / (44100 * 2), samples = smp \<rparr>"
  have "100 \<le> sampleRate ad" by (simp add: ad_def)
  from computeMetrics_range[OF this] obtain m where
    m: "computeMetrics ad = Some m" "pace m \<in> {2, 3, 4, 5}" by blast
  have "analyzeAudioProperties (Buffer buf) = Some m"
    using p m(1) by (simp add: analyzeAudioProperties_def ad_def)
  moreover have "m \<noteq> fallbackMetrics" using m(2) by (rule pace_fallback)
  ultimately show ?thesis using s m(1) unfolding ad_def by blast
qed

theorem empty_or_odd_buffer_is_analysed_witness:
  "(length ([] :: 8 word list) = 0 \<or> odd (length ([] :: 8 word list)))
   \<and> extractSamplesFromBuffer [] = Inr []
   \<and> analyzeAudioProperties (Buffer [])
       = Some \<lparr> pace = 2, volume = 3, clarity = 1, pauseDuration = 2, tonalVariation = 2,
                confidence = 2, enthusiasm = 2.4 \<rparr>
   \<and> \<lparr> pace = 2, volume = 3, clarity = 1, pauseDuration = 2, tonalVariation = 2,
                confidence = 2, enthusiasm = 2.4 \<rparr> \<noteq> fallbackMetrics"
proof -
  have h: "length ([] :: 8 word list) = 0 \<or> odd (length ([] :: 8 word list))" by simp
  from empty_or_odd_buffer_is_analysed[OF h] obtain smp m where
    r: "extractSamplesFromBuffer [] = Inr smp" "length smp = length ([] :: 8 word list) div 2"
       "analyzeAudioProperties (Buffer []) = Some m" "m \<noteq> fallbackMetrics"
    by blast
  from r(2) have "smp = []" by simp
  moreover from r(3) have "m = \<lparr> pace = 2, volume = 3, clarity = 1, pauseDuration = 2,
      tonalVariation = 2, confidence = 2, enthusiasm = 2.4 \<rparr>"
    by (simp add: analyze_empty_buffer)
  ultimately show ?thesis using r h by simp
qed

subsection \<open>Failures of a stage\<close>

text \<open>
  One zero sample: the spectral analysis throws, and the record returned is
  not the fixed default record. Clarity has the default of its own catch block
  and the other fields are computed.
\<close>

theorem spectral_failure_counterexample:
  "performFFT [0] = Inl RangeError
   \<and> processAudioBuffer (Buffer [0, 0])
       = Inr \<lparr> buffer = [0, 0], sampleRate = 44100, channels = 1,
               duration = 1 / 44100, samples = [0] \<rparr>
   \<and> analyzeAudioProperties (Buffer [0, 0])
       = Some \<lparr> pace = 2, volume = 2, clarity = 3.8, pauseDuration = 2, tonalVariation = 2,
                confidence = 2.5, enthusiasm = 2 \<rparr>
   \<and> analyzeAudioProperties (Buffer [0, 0]) \<noteq> Some fallbackMetrics"
  by (simp add: performFFT_examples decode_examples analyze_one_zero_sample fallbackMetrics_def)

text \<open>
  C2, as amended. When decoding (\<^verbatim>\<open>processAudioBuffer\<close>) throws, the whole
  metric set is the fixed default record and the error is not propagated.
  When the spectral analysis throws, the error is caught inside
  \<^verbatim>\<open>calculateRealClarity\<close>: clarity alone takes its default 3.8, the other four
  primary scores are the computed ones, the record is not the fixed default
  record, and the error is not propagated either.
\<close>

theorem stage_failure_defaults:
  "(processAudioBuffer audioBuffer = Inl e
      \<longrightarrow> analyzeAudioProperties audioBuffer = Some fallbackMetrics)
   \<and> (processAudioBuffer audioBuffer = Inr audioData
        \<and> performFFT (samples audioData) = Inl e'
      \<longrightarrow> (\<exists>m. analyzeAudioProperties audioBuffer = Some m
             \<and> clarity m = 3.8
             \<and> calculateRealPace audioData = Some (pace m)
             \<and> volume m = calculateRealVolume audioData
             \<and> calculateRealPauses audioData = Some (pauseDuration m)
             \<and> calculateRealTonalVariation audioData = Some (tonalVariation m)
             \<and> m \<noteq> fallbackMetrics))"
proof (intro conjI impI)
  assume "processAudioBuffer audioBuffer = Inl e"
  then show "analyzeAudioProperties audioBuffer = Some fallbackMetrics"
    by (simp add: analyzeAudioProperties_def)
next
  assume a: "processAudioBuffer audioBuffer = Inr audioData
        \<and> performFFT (samples audioData) = Inl e'"
  then have "100 \<le> sampleRate audioData"
    using processAudioBuffer_sampleRate[of audioBuffer audioData] by simp
  from computeMetrics_range[OF this] obtain m where
    m: "computeMetrics audioData = Some m" "pace m \<in> {2, 3, 4, 5}"
       "calculateRealPace audioData = Some (pace m)"
       "volume m = calculateRealVolume audioData"
       "clarity m = calculateRealClarity audioData"
       "calculateRealPauses audioData = Some (pauseDuration m)"
       "calculateRealTonalVariation audioData = Some (tonalVariation m)"
    by blast
  have "analyzeAudioProperties audioBuffer = Some m"
    using a m(1) by (simp add: analyzeAudioProperties_def)
  moreover have "clarity m = 3.8"
    using a m(5) by (simp add: calculateRealClarity_def)
  moreover have "m \<noteq> fallbackMetrics" using m(2) by (rule pace_fallback)
  ultimately show "\<exists>m. analyzeAudioProperties audioBuffer = Some m
             \<and> clarity m = 3.8
             \<and> calculateRealPace audioData = Some (pace m)
             \<and> volume m = calculateRealVolume audioData
             \<and> calculateRealPauses audioData = Some (pauseDuration m)
             \<and> calculateRealTonalVariation audioData = Some (tonalVariation m)
             \<and> m \<noteq> fallbackMetrics"
    using m(3,4,6,7) by blast
qed

theorem stage_failure_defaults_witness:
  "processAudioBuffer Undefined = Inl TypeError
   \<and> analyzeAudioProperties Undefined = Some fallbackMetrics
   \<and> processAudioBuffer (Buffer [0, 0, 0, 0, 0, 0])
       = Inr \<lparr> buffer = [0, 0, 0, 0, 0, 0], sampleRate = 44100, channels = 1,
               duration = 1 / 14700, samples = [0, 0, 0] \<rparr>
   \<and> performFFT [0, 0, 0] = Inl RangeError
   \<and> (\<exists>m. analyzeAudioProperties (Buffer [0, 0, 0, 0, 0, 0]) = Some m
          \<and> clarity m = 3.8 \<and> m \<noteq> fallbackMetrics)"
proof -
  let ?ad = "\<lparr> buffer = [0, 0, 0, 0, 0, 0], sampleRate = 44100, channels = 1,
               duration = 1 / 14700, samples = [0, 0, 0] \<rparr>"
  have u: "processAudioBuffer Undefined = Inl TypeError"
    by (simp add: processAudioBuffer_def)
  have b: "processAudioBuffer (Buffer [0, 0, 0, 0, 0, 0]) = Inr ?ad"
    by (simp add: processAudioBuffer_def extractSamplesFromBuffer_def readInt16LE_def)
  have f: "performFFT (samples ?ad) = Inl RangeError"
    by (simp add: performFFT_odd)
  from stage_failure_defaults[of Undefined TypeError] u
  have 1: "analyzeAudioProperties Undefined = Some fallbackMetrics" by blast
  from stage_failure_defaults[of "Buffer [0, 0, 0, 0, 0, 0]" _ ?ad RangeError] b f
  have 2: "\<exists>m. analyzeAudioProperties (Buffer [0, 0, 0, 0, 0, 0]) = Some m
          \<and> clarity m = 3.8 \<and> m \<noteq> fallbackMetrics" by blast
  from f have "performFFT [0, 0, 0] = Inl RangeError" by simp
  with u b 1 2 show ?thesis by blast
qed

text \<open>
  C7. For an even \<open>N = min(1024, length)\<close> the spectrum has \<open>N / 2\<close> bins of
  the stated form (\<open>performFFT_even\<close>) and the band energy is the stated sum
  (\<open>getFrequencyRange_sum\<close>). For an odd \<open>N\<close> no bins are produced: three
  samples make \<^verbatim>\<open>new Array(1.5)\<close> throw, and clarity becomes the default 3.8.
\<close>

theorem odd_sample_count_no_spectrum:
  "extractSamplesFromBuffer [1, 0, 2, 0, 3, 0] = Inr [1 / 32768, 2 / 32768, 3 / 32768]
   \<and> performFFT [1 / 32768, 2 / 32768, 3 / 32768] = Inl RangeError
   \<and> calculateRealClarity \<lparr> buffer = [1, 0, 2, 0, 3, 0], sampleRate = 44100, channels = 1,
         duration = 6 / 88200, samples = [1 / 32768, 2 / 32768, 3 / 32768] \<rparr> = 3.8"
  by (simp add: extractSamplesFromBuffer_def readInt16LE_def word_cat_eq performFFT_odd
      calculateRealClarity_def)

end
